theory Spec2Isabelle
  imports
    Main
    "HOL-Library.Word"
    "HOL-Library.Char_ord"
    "HOL-Library.List_Lexorder"
    "HOL-Library.Sublist"
    "HOL-Library.Multiset"
begin

section \<open>The bencode codec\<close>

text \<open>
  Modelled from the spec: the codec that \<^verbatim>\<open>main.go\<close> reaches through
  \<^verbatim>\<open>bencode.DecodeBytes\<close> and \<^verbatim>\<open>bencode.EncodeBytes\<close> is a library whose code
  is not part of the sources. The definitions of this section follow the grammar of the
  spec's section 4.1: an integer is \<^verbatim>\<open>i<digits>e\<close> with an optional minus sign, no
  leading zeros and no \<^verbatim>\<open>-0\<close>; a byte string is \<^verbatim>\<open><length>:<bytes>\<close>; a list is
  \<^verbatim>\<open>l<items>e\<close>; a dictionary is \<^verbatim>\<open>d<pairs>e\<close> with byte-string keys. The encoder
  emits the keys of a dictionary in ascending order of their bytes. Bytes are \<^typ>\<open>char\<close>,
  a byte string is a \<^typ>\<open>string\<close>, and integers are signed 64-bit words.

  A dictionary is kept as the list of its pairs. The program decodes into Go maps, where a
  key occurs once and a later pair with the same key replaces an earlier one; \<open>dict_add\<close>
  does the same, so a decoded dictionary never holds a key twice. The byte offset that a
  parse error reports is not modelled.
\<close>

datatype bvalue =
    Integer "64 word"
  | ByteString string
  | List "bvalue list"
  | Dictionary "(string \<times> bvalue) list"

definition is_digit :: "char \<Rightarrow> bool" where
  "is_digit c = (c \<in> set ''0123456789'')"

definition digit_val :: "char \<Rightarrow> int" where
  "digit_val c = of_char c - 48"

definition digit_char :: "nat \<Rightarrow> char" where
  "digit_char d = ''0123456789'' ! d"

fun show_nat :: "nat \<Rightarrow> string" where
  "show_nat n = (if n < 10 then [digit_char n] else show_nat (n div 10) @ [digit_char (n mod 10)])"

declare show_nat.simps [simp del]

definition show_int :: "int \<Rightarrow> string" where
  "show_int i = (if i < 0 then CHR ''-'' # show_nat (nat (- i)) else show_nat (nat i))"

definition encode_bytes :: "string \<Rightarrow> string" where
  "encode_bytes s = show_nat (length s) @ CHR '':'' # s"

fun Encode :: "bvalue \<Rightarrow> string" where
  "Encode (Integer i) = CHR ''i'' # show_int (sint i) @ ''e''"
| "Encode (ByteString s) = encode_bytes s"
| "Encode (List xs) = CHR ''l'' # concat (map Encode xs) @ ''e''"
| "Encode (Dictionary kvs) =
     CHR ''d'' # concat (map (\<lambda>(k, v). encode_bytes k @ Encode v) (sort_key fst kvs)) @ ''e''"

definition digits_val :: "string \<Rightarrow> int" where
  "digits_val ds = foldl (\<lambda>a c. 10 * a + digit_val c) 0 ds"

definition read_number :: "string \<Rightarrow> (int \<times> string) option" where
  "read_number s =
     (let ds = takeWhile is_digit s; r = dropWhile is_digit s in
      if ds = [] then None
      else if hd ds = CHR ''0'' \<and> 1 < length ds then None
      else Some (digits_val ds, r))"

definition decode_bytes :: "string \<Rightarrow> (string \<times> string) option" where
  "decode_bytes s =
     (case read_number s of
        None \<Rightarrow> None
      | Some (n, r) \<Rightarrow>
          (case r of
             [] \<Rightarrow> None
           | c # r' \<Rightarrow>
               if c = CHR '':'' \<and> n \<le> int (length r') then Some (take (nat n) r', drop (nat n) r') else None))"

definition expect_e :: "64 word \<Rightarrow> string \<Rightarrow> (64 word \<times> string) option" where
  "expect_e w r = (case r of [] \<Rightarrow> None | c # r' \<Rightarrow> if c = CHR ''e'' then Some (w, r') else None)"

definition decode_int :: "string \<Rightarrow> (64 word \<times> string) option" where
  "decode_int s =
     (case s of
        [] \<Rightarrow> None
      | c # s' \<Rightarrow>
          if c = CHR ''-'' then
            (case read_number s' of
               None \<Rightarrow> None
             | Some (n, r) \<Rightarrow>
                 if n = 0 \<or> 2 ^ 63 < n then None else expect_e (word_of_int (- n)) r)
          else
            (case read_number s of
               None \<Rightarrow> None
             | Some (n, r) \<Rightarrow>
                 if 2 ^ 63 \<le> n then None else expect_e (word_of_int n) r))"

definition dict_add :: "string \<Rightarrow> bvalue \<Rightarrow> (string \<times> bvalue) list \<Rightarrow> (string \<times> bvalue) list" where
  "dict_add k v later = (if k \<in> fst ` set later then later else (k, v) # later)"

text \<open>
  The parser reads one value from the front of the input and returns it with the bytes
  that follow it. Its first argument bounds the number of nested calls still allowed. Every
  nested call is made after at least one byte has been consumed, so a bound equal to the
  length of the input never makes a parse fail (lemma \<open>decode_value_fuel\<close> below).
\<close>

fun decode_value :: "nat \<Rightarrow> string \<Rightarrow> (bvalue \<times> string) option"
  and decode_items :: "nat \<Rightarrow> string \<Rightarrow> (bvalue list \<times> string) option"
  and decode_pairs :: "nat \<Rightarrow> string \<Rightarrow> ((string \<times> bvalue) list \<times> string) option"
where
  "decode_value 0 s = None"
| "decode_value (Suc n) [] = None"
| "decode_value (Suc n) (c # s) =
     (if c = CHR ''i'' then
        (case decode_int s of None \<Rightarrow> None | Some (i, r) \<Rightarrow> Some (Integer i, r))
      else if c = CHR ''l'' then
        (case decode_items n s of None \<Rightarrow> None | Some (xs, r) \<Rightarrow> Some (List xs, r))
      else if c = CHR ''d'' then
        (case decode_pairs n s of None \<Rightarrow> None | Some (kvs, r) \<Rightarrow> Some (Dictionary kvs, r))
      else if is_digit c then
        (case decode_bytes (c # s) of None \<Rightarrow> None | Some (b, r) \<Rightarrow> Some (ByteString b, r))
      else None)"
| "decode_items 0 s = None"
| "decode_items (Suc n) [] = None"
| "decode_items (Suc n) (c # s) =
     (if c = CHR ''e'' then Some ([], s)
      else
        (case decode_value n (c # s) of
           None \<Rightarrow> None
         | Some (x, r) \<Rightarrow>
             (case decode_items n r of None \<Rightarrow> None | Some (xs, r') \<Rightarrow> Some (x # xs, r'))))"
| "decode_pairs 0 s = None"
| "decode_pairs (Suc n) [] = None"
| "decode_pairs (Suc n) (c # s) =
     (if c = CHR ''e'' then Some ([], s)
      else
        (case decode_bytes (c # s) of
           None \<Rightarrow> None
         | Some (k, r) \<Rightarrow>
             (case decode_value n r of
                None \<Rightarrow> None
              | Some (v, r') \<Rightarrow>
                  (case decode_pairs n r' of
                     None \<Rightarrow> None
                   | Some (kvs, r'') \<Rightarrow> Some (dict_add k v kvs, r'')))))"

section \<open>Errors and outcomes\<close>

text \<open>
  The errors of the program. \<open>BencodeSyntax\<close> and \<open>BencodeType\<close> are the library's
  (input that is no bencode; a value that does not fit the Go type it is decoded into),
  \<open>OsError\<close> is an error of the operating system, \<open>NoInfoSection\<close> is
  \<^verbatim>\<open>"no info section found"\<close> (line 158), and the last three wrap another error as
  \<^verbatim>\<open>fmt.Errorf\<close> does at lines 174, 180 and 127.
\<close>

datatype error =
    BencodeSyntax
  | BencodeType
  | NoInfoSection
  | OsError
  | ReadingFile error
  | DecodingBencode error
  | ReadingDirectory error

text \<open>
  Modelled from the spec: decoding the bytes of a file succeeds on a dictionary only
  (``a top-level value that is not a Dictionary'' is a parse error); this is also what the
  program's decode targets, a Go map and a struct, accept.
\<close>

definition Decode :: "string \<Rightarrow> error + bvalue" where
  "Decode b =
     (case decode_value (length b) b of
        None \<Rightarrow> Inl BencodeSyntax
      | Some (v, r) \<Rightarrow> (case v of Dictionary kvs \<Rightarrow> Inr v | _ \<Rightarrow> Inl BencodeSyntax))"

section \<open>The program: \<^verbatim>\<open>main.go\<close>\<close>

text \<open>
  A value of Go type \<^verbatim>\<open>interface{}\<close>: \<^verbatim>\<open>nil\<close>, a value the library decoded (a
  string, an int64, a \<^verbatim>\<open>[]interface{}\<close> or a map), or a \<^verbatim>\<open>[]string\<close>, which the
  library never produces for this target but \<^verbatim>\<open>extractWebSeeds\<close> handles.
\<close>

datatype any = AnyNil | AnyValue bvalue | AnyStrings "string list"

text \<open>
  The structs of lines 24 to 66 and 110 to 113. Fields of two structs that share a name
  are told apart by a prefix.
\<close>

record FileDict =
  fd_Length :: "64 word"
  fd_Path :: "string list"

record InfoDict =
  info_Name :: string
  info_Length :: "64 word"
  info_Files :: "FileDict list"
  info_PieceLength :: "64 word"
  info_Pieces :: string

record TorrentMetaInfo =
  Announce :: string
  AnnounceList :: any
  meta_Comment :: string
  meta_CreatedBy :: string
  CreationDate :: "64 word"
  Info :: InfoDict
  URLList :: any

text \<open>A \<^verbatim>\<open>time.Time\<close>, as the seconds and nanoseconds that \<^verbatim>\<open>time.Unix\<close> takes.\<close>

datatype go_time = time_Unix "64 word" "64 word"

record File =
  Path :: "string list"
  Length :: "64 word"

record TorrentInfo =
  Name :: string
  InfoHash :: string
  Size :: "64 word"
  Files :: "File list"
  WebSeeds :: "string list"
  CreatedBy :: string
  CreatedDate :: go_time
  Comment :: string
  FilePath :: string

record TorrentManager =
  torrentsDir :: string
  torrents :: "TorrentInfo list"

text \<open>
  A Go byte slice: \<open>bytes\<close> are its \<^verbatim>\<open>len\<close> elements, \<open>spare\<close> are the bytes of its
  backing array between \<^verbatim>\<open>len\<close> and \<^verbatim>\<open>cap\<close>. A slice expression may reach into
  the spare bytes and panics only beyond the capacity.
\<close>

record go_bytes =
  bytes :: string
  spare :: string

text \<open>What the loop of \<^verbatim>\<open>LoadTorrents\<close> reads of a directory entry.\<close>

record FileInfo =
  fi_Name :: string
  IsDir :: bool

text \<open>A call returns, or panics at run time.\<close>

datatype 'a outcome = Returns 'a | Panics

text \<open>
  What the program takes from outside: the functions of Go's standard library that are
  not modelled here (the digest, Unicode lower-casing, path joining), the file system and
  the clock. \<open>time_Now env path\<close> is the reading of the clock while the file at \<open>path\<close>
  is parsed. The last three fields are what the bencode library does when a key of the
  input names a field that an earlier pair has already filled: \<open>redecode_interface\<close>
  for a field of type \<^verbatim>\<open>interface{}\<close> that is no longer \<^verbatim>\<open>nil\<close>,
  \<open>redecode_files\<close> and \<open>redecode_path\<close> for a slice that is no longer empty. Each
  takes the value the field holds and the input from the start of the new value.
\<close>

record env =
  sha1_Sum :: "string \<Rightarrow> string"
  ToLower :: "string \<Rightarrow> string"
  filepath_Join :: "string \<Rightarrow> string \<Rightarrow> string"
  ReadDir :: "string \<Rightarrow> error + FileInfo list"
  ReadFile :: "string \<Rightarrow> error + go_bytes"
  time_Now :: "string \<Rightarrow> go_time"
  redecode_interface :: "any \<Rightarrow> string \<Rightarrow> (error + any) outcome"
  redecode_files :: "FileDict list \<Rightarrow> string \<Rightarrow> (error + FileDict list) outcome"
  redecode_path :: "string list \<Rightarrow> string \<Rightarrow> (error + string list) outcome"

text \<open>
  Decoding into a struct, \<^verbatim>\<open>bencode.DecodeBytes(data, &metaInfo)\<close> of line 178. The
  library's code is not in the sources; the decode is modelled from the struct declarations
  of lines 43 to 66 and from the order in which the library works through its input. It
  reads the pairs of a dictionary one after the other and stores each value, as soon as it
  is read, into the field whose tag names the key. So a field whose key is absent keeps the
  value it had; a value of another type than the field's, or bytes that are no bencode, end
  the decode with an error at that pair, whatever follows; the value of a key without a
  field is read and dropped; and a key that occurs twice is stored twice. A second
  \<^verbatim>\<open>info\<close> dictionary is decoded into the struct that the first one filled, and a
  second value for \<^verbatim>\<open>url-list\<close> or \<^verbatim>\<open>announce-list\<close> is decoded into the value
  that the field already holds, which is where the environment's \<open>redecode_interface\<close>
  is asked.

  \<open>split_pairs\<close> cuts the bytes that follow a \<^verbatim>\<open>d\<close> into entries: the key, the input
  from the start of its value, and the value when one can be read there. The boolean tells
  whether the closing \<^verbatim>\<open>e\<close> was reached. \<open>split_items\<close> does the same for the items
  of a list. The \<open>fill\<close> functions store the entries into a struct from left to right;
  \<open>finish\<close> reports the syntax error of an input that ends before its closing
  \<^verbatim>\<open>e\<close>, unless storing an entry failed earlier.
\<close>

definition and_then :: "error + 'a \<Rightarrow> ('a \<Rightarrow> error + 'b) \<Rightarrow> error + 'b" where
  "and_then r f = (case r of Inl e \<Rightarrow> Inl e | Inr x \<Rightarrow> f x)"

fun traverse :: "('a \<Rightarrow> error + 'b) \<Rightarrow> 'a list \<Rightarrow> error + 'b list" where
  "traverse f [] = Inr []"
| "traverse f (x # xs) =
     and_then (f x) (\<lambda>y. and_then (traverse f xs) (\<lambda>ys. Inr (y # ys)))"

fun to_string :: "bvalue \<Rightarrow> error + string" where
  "to_string (ByteString s) = Inr s"
| "to_string v = Inl BencodeType"

fun to_strings :: "bvalue \<Rightarrow> error + string list" where
  "to_strings (List xs) = traverse to_string xs"
| "to_strings v = Inl BencodeType"

type_synonym entry = "string \<times> string \<times> bvalue option"

fun split_pairs :: "nat \<Rightarrow> string \<Rightarrow> entry list \<times> bool" where
  "split_pairs 0 s = ([], False)"
| "split_pairs (Suc n) [] = ([], False)"
| "split_pairs (Suc n) (c # s) =
     (if c = CHR ''e'' then ([], True)
      else
        (case decode_bytes (c # s) of
           None \<Rightarrow> ([], False)
         | Some (k, r) \<Rightarrow>
             (case decode_value n r of
                None \<Rightarrow> ([(k, r, None)], False)
              | Some (v, r') \<Rightarrow>
                  (case split_pairs n r' of (es, closed) \<Rightarrow> ((k, r, Some v) # es, closed)))))"

fun split_items :: "nat \<Rightarrow> string \<Rightarrow> (string \<times> bvalue option) list \<times> bool" where
  "split_items 0 s = ([], False)"
| "split_items (Suc n) [] = ([], False)"
| "split_items (Suc n) (c # s) =
     (if c = CHR ''e'' then ([], True)
      else
        (case decode_value n (c # s) of
           None \<Rightarrow> ([(c # s, None)], False)
         | Some (v, r') \<Rightarrow>
             (case split_items n r' of (items, closed) \<Rightarrow> ((c # s, Some v) # items, closed))))"

definition then_fill :: "(error + 'a) outcome \<Rightarrow> ('a \<Rightarrow> (error + 'b) outcome) \<Rightarrow> (error + 'b) outcome" where
  "then_fill res f =
     (case res of Panics \<Rightarrow> Panics | Returns (Inl e) \<Rightarrow> Returns (Inl e) | Returns (Inr x) \<Rightarrow> f x)"

definition finish :: "bool \<Rightarrow> (error + 'a) outcome \<Rightarrow> (error + 'a) outcome" where
  "finish closed res =
     then_fill res (\<lambda>x. if closed then Returns (Inr x) else Returns (Inl BencodeSyntax))"

definition want_value :: "bvalue option \<Rightarrow> (error + bvalue) outcome" where
  "want_value dv = (case dv of None \<Rightarrow> Returns (Inl BencodeSyntax) | Some v \<Rightarrow> Returns (Inr v))"

definition want_string :: "bvalue option \<Rightarrow> (error + string) outcome" where
  "want_string dv =
     then_fill (want_value dv)
       (\<lambda>v. case v of ByteString s \<Rightarrow> Returns (Inr s) | _ \<Rightarrow> Returns (Inl BencodeType))"

definition want_int64 :: "bvalue option \<Rightarrow> (error + 64 word) outcome" where
  "want_int64 dv =
     then_fill (want_value dv)
       (\<lambda>v. case v of Integer i \<Rightarrow> Returns (Inr i) | _ \<Rightarrow> Returns (Inl BencodeType))"

definition decode_interface :: "env \<Rightarrow> any \<Rightarrow> string \<Rightarrow> bvalue option \<Rightarrow> (error + any) outcome" where
  "decode_interface env cur r dv =
     (if cur = AnyNil then then_fill (want_value dv) (\<lambda>v. Returns (Inr (AnyValue v)))
      else then_fill (redecode_interface env cur r)
             (\<lambda>a. then_fill (want_value dv) (\<lambda>v. Returns (Inr a))))"

definition decode_path :: "env \<Rightarrow> string list \<Rightarrow> string \<Rightarrow> bvalue option \<Rightarrow> (error + string list) outcome" where
  "decode_path env cur r dv =
     (if cur = [] then then_fill (want_value dv) (\<lambda>v. Returns (to_strings v))
      else then_fill (redecode_path env cur r)
             (\<lambda>p. then_fill (want_value dv) (\<lambda>v. Returns (Inr p))))"

definition zero_FileDict :: FileDict where
  "zero_FileDict = \<lparr>fd_Length = 0, fd_Path = []\<rparr>"

definition zero_InfoDict :: InfoDict where
  "zero_InfoDict = \<lparr>info_Name = [], info_Length = 0, info_Files = [],
                     info_PieceLength = 0, info_Pieces = []\<rparr>"

definition zero_TorrentMetaInfo :: TorrentMetaInfo where
  "zero_TorrentMetaInfo =
     \<lparr>Announce = [], AnnounceList = AnyNil, meta_Comment = [], meta_CreatedBy = [],
      CreationDate = 0, Info = zero_InfoDict, URLList = AnyNil\<rparr>"

fun fill_FileDict :: "env \<Rightarrow> entry list \<Rightarrow> FileDict \<Rightarrow> (error + FileDict) outcome" where
  "fill_FileDict env [] f = Returns (Inr f)"
| "fill_FileDict env ((k, r, dv) # es) f =
     (if k = ''length'' then
        then_fill (want_int64 dv) (\<lambda>i. fill_FileDict env es (f\<lparr>fd_Length := i\<rparr>))
      else if k = ''path'' then
        then_fill (decode_path env (fd_Path f) r dv) (\<lambda>p. fill_FileDict env es (f\<lparr>fd_Path := p\<rparr>))
      else then_fill (want_value dv) (\<lambda>v. fill_FileDict env es f))"

definition decode_FileDict :: "env \<Rightarrow> string \<Rightarrow> (error + FileDict) outcome" where
  "decode_FileDict env r =
     (case r of
        [] \<Rightarrow> Returns (Inl BencodeSyntax)
      | c # s \<Rightarrow>
          if c = CHR ''d'' then
            (case split_pairs (length s) s of
               (es, closed) \<Rightarrow> finish closed (fill_FileDict env es zero_FileDict))
          else Returns (Inl BencodeType))"

fun fill_files :: "env \<Rightarrow> (string \<times> bvalue option) list \<Rightarrow> FileDict list \<Rightarrow> (error + FileDict list) outcome" where
  "fill_files env [] fs = Returns (Inr fs)"
| "fill_files env ((r, dv) # items) fs =
     then_fill (decode_FileDict env r) (\<lambda>f. fill_files env items (fs @ [f]))"

definition decode_files :: "env \<Rightarrow> FileDict list \<Rightarrow> string \<Rightarrow> bvalue option \<Rightarrow> (error + FileDict list) outcome" where
  "decode_files env cur r dv =
     (if cur = [] then
        (case r of
           [] \<Rightarrow> Returns (Inl BencodeSyntax)
         | c # s \<Rightarrow>
             if c = CHR ''l'' then
               (case split_items (length s) s of
                  (items, closed) \<Rightarrow> finish closed (fill_files env items []))
             else Returns (Inl BencodeType))
      else then_fill (redecode_files env cur r)
             (\<lambda>fs. then_fill (want_value dv) (\<lambda>v. Returns (Inr fs))))"

fun fill_InfoDict :: "env \<Rightarrow> entry list \<Rightarrow> InfoDict \<Rightarrow> (error + InfoDict) outcome" where
  "fill_InfoDict env [] i = Returns (Inr i)"
| "fill_InfoDict env ((k, r, dv) # es) i =
     (if k = ''name'' then
        then_fill (want_string dv) (\<lambda>s. fill_InfoDict env es (i\<lparr>info_Name := s\<rparr>))
      else if k = ''length'' then
        then_fill (want_int64 dv) (\<lambda>n. fill_InfoDict env es (i\<lparr>info_Length := n\<rparr>))
      else if k = ''files'' then
        then_fill (decode_files env (info_Files i) r dv)
          (\<lambda>fs. fill_InfoDict env es (i\<lparr>info_Files := fs\<rparr>))
      else if k = ''piece length'' then
        then_fill (want_int64 dv) (\<lambda>n. fill_InfoDict env es (i\<lparr>info_PieceLength := n\<rparr>))
      else if k = ''pieces'' then
        then_fill (want_string dv) (\<lambda>s. fill_InfoDict env es (i\<lparr>info_Pieces := s\<rparr>))
      else then_fill (want_value dv) (\<lambda>v. fill_InfoDict env es i))"

definition decode_InfoDict :: "env \<Rightarrow> InfoDict \<Rightarrow> string \<Rightarrow> (error + InfoDict) outcome" where
  "decode_InfoDict env cur r =
     (case r of
        [] \<Rightarrow> Returns (Inl BencodeSyntax)
      | c # s \<Rightarrow>
          if c = CHR ''d'' then
            (case split_pairs (length s) s of
               (es, closed) \<Rightarrow> finish closed (fill_InfoDict env es cur))
          else Returns (Inl BencodeType))"

fun fill_TorrentMetaInfo :: "env \<Rightarrow> entry list \<Rightarrow> TorrentMetaInfo \<Rightarrow> (error + TorrentMetaInfo) outcome" where
  "fill_TorrentMetaInfo env [] m = Returns (Inr m)"
| "fill_TorrentMetaInfo env ((k, r, dv) # es) m =
     (if k = ''announce'' then
        then_fill (want_string dv) (\<lambda>s. fill_TorrentMetaInfo env es (m\<lparr>Announce := s\<rparr>))
      else if k = ''announce-list'' then
        then_fill (decode_interface env (AnnounceList m) r dv)
          (\<lambda>a. fill_TorrentMetaInfo env es (m\<lparr>AnnounceList := a\<rparr>))
      else if k = ''comment'' then
        then_fill (want_string dv) (\<lambda>s. fill_TorrentMetaInfo env es (m\<lparr>meta_Comment := s\<rparr>))
      else if k = ''created by'' then
        then_fill (want_string dv) (\<lambda>s. fill_TorrentMetaInfo env es (m\<lparr>meta_CreatedBy := s\<rparr>))
      else if k = ''creation date'' then
        then_fill (want_int64 dv) (\<lambda>n. fill_TorrentMetaInfo env es (m\<lparr>CreationDate := n\<rparr>))
      else if k = ''info'' then
        then_fill (decode_InfoDict env (Info m) r)
          (\<lambda>i. fill_TorrentMetaInfo env es (m\<lparr>Info := i\<rparr>))
      else if k = ''url-list'' then
        then_fill (decode_interface env (URLList m) r dv)
          (\<lambda>a. fill_TorrentMetaInfo env es (m\<lparr>URLList := a\<rparr>))
      else then_fill (want_value dv) (\<lambda>v. fill_TorrentMetaInfo env es m))"

definition DecodeBytes_TorrentMetaInfo :: "env \<Rightarrow> string \<Rightarrow> (error + TorrentMetaInfo) outcome" where
  "DecodeBytes_TorrentMetaInfo env data =
     (case data of
        [] \<Rightarrow> Returns (Inl BencodeSyntax)
      | c # s \<Rightarrow>
          if c = CHR ''d'' then
            (case split_pairs (length s) s of
               (es, closed) \<Rightarrow> finish closed (fill_TorrentMetaInfo env es zero_TorrentMetaInfo))
          else Returns (Inl BencodeType))"

text \<open>\<^verbatim>\<open>hex.EncodeToString\<close> and \<^verbatim>\<open>fmt.Sprintf("%x", ...)\<close> of a byte slice: two
  lower-case hexadecimal digits for each byte.\<close>

definition hex_digit :: "nat \<Rightarrow> char" where
  "hex_digit n = ''0123456789abcdef'' ! n"

definition hex_encode :: "string \<Rightarrow> string" where
  "hex_encode bs =
     concat (map (\<lambda>c. [hex_digit (of_char c div 16), hex_digit (of_char c mod 16)]) bs)"

text \<open>
  \<^verbatim>\<open>calculateInfoHash\<close>, lines 149 to 168. Decoding into a map accepts a dictionary
  only. \<^verbatim>\<open>bencode.EncodeBytes\<close> cannot fail on a decoded value, so its error branch
  (line 162) has no counterpart.
\<close>

definition calculateInfoHash :: "env \<Rightarrow> string \<Rightarrow> error + string" where
  "calculateInfoHash env torrentData =
     (case Decode torrentData of
        Inl e \<Rightarrow> Inl e
      | Inr torrent \<Rightarrow>
          (case torrent of
             Dictionary kvs \<Rightarrow>
               (case map_of kvs ''info'' of
                  None \<Rightarrow> Inl NoInfoSection
                | Some info \<Rightarrow> Inr (hex_encode (sha1_Sum env (Encode info))))
           | _ \<Rightarrow> Inl BencodeType))"

text \<open>The slice expression \<^verbatim>\<open>data[:n]\<close>; \<open>None\<close> is the panic
  \<^verbatim>\<open>slice bounds out of range\<close>.\<close>

definition cap :: "go_bytes \<Rightarrow> nat" where
  "cap d = length (bytes d) + length (spare d)"

definition slice_to :: "go_bytes \<Rightarrow> nat \<Rightarrow> string option" where
  "slice_to d n = (if n \<le> cap d then Some (take n (bytes d @ spare d)) else None)"

text \<open>\<^verbatim>\<open>extractWebSeeds\<close>, lines 233 to 257; \<open>extract_loop\<close> is its \<^verbatim>\<open>for\<close> loop.\<close>

fun extract_loop :: "bvalue list \<Rightarrow> string list \<Rightarrow> string list" where
  "extract_loop [] webSeeds = webSeeds"
| "extract_loop (url # v) webSeeds =
     (case url of
        ByteString urlStr \<Rightarrow> extract_loop v (webSeeds @ [urlStr])
      | _ \<Rightarrow> extract_loop v webSeeds)"

fun extractWebSeeds :: "any \<Rightarrow> string list" where
  "extractWebSeeds AnyNil = []"
| "extractWebSeeds (AnyValue (ByteString v)) = [] @ [v]"
| "extractWebSeeds (AnyValue (List v)) = extract_loop v []"
| "extractWebSeeds (AnyStrings v) = v"
| "extractWebSeeds (AnyValue v) = []"

text \<open>
  \<^verbatim>\<open>parseTorrentFile\<close>, lines 171 to 230; \<open>files_loop\<close> is the loop of lines 202 to
  208, whose sum wraps around as \<^verbatim>\<open>int64\<close> addition does. When
  \<^verbatim>\<open>calculateInfoHash\<close> fails, line 187 takes \<^verbatim>\<open>data[:20]\<close>.
\<close>

fun files_loop :: "FileDict list \<Rightarrow> 64 word \<Rightarrow> File list \<Rightarrow> 64 word \<times> File list" where
  "files_loop [] totalSize files = (totalSize, files)"
| "files_loop (file # rest) totalSize files =
     files_loop rest (totalSize + fd_Length file)
       (files @ [\<lparr>Path = fd_Path file, Length = fd_Length file\<rparr>])"

definition parseTorrentFile :: "env \<Rightarrow> string \<Rightarrow> (error + TorrentInfo) outcome" where
  "parseTorrentFile env filePath =
     (case ReadFile env filePath of
        Inl e \<Rightarrow> Returns (Inl (ReadingFile e))
      | Inr data \<Rightarrow>
          (case DecodeBytes_TorrentMetaInfo env (bytes data) of
             Panics \<Rightarrow> Panics
           | Returns (Inl e) \<Rightarrow> Returns (Inl (DecodingBencode e))
           | Returns (Inr metaInfo) \<Rightarrow>
               (case (case calculateInfoHash env (bytes data) of
                        Inr h \<Rightarrow> Some h
                      | Inl e \<Rightarrow> map_option hex_encode (slice_to data 20)) of
                  None \<Rightarrow> Panics
                | Some infoHash \<Rightarrow>
                    (let (totalSize, files) =
                           (if 0 < sint (info_Length (Info metaInfo))
                            then (info_Length (Info metaInfo),
                                  [\<lparr>Path = [info_Name (Info metaInfo)],
                                    Length = info_Length (Info metaInfo)\<rparr>])
                            else files_loop (info_Files (Info metaInfo)) 0 []);
                         createdDate =
                           (if 0 < sint (CreationDate metaInfo)
                            then time_Unix (CreationDate metaInfo) 0
                            else time_Now env filePath);
                         webSeeds = extractWebSeeds (URLList metaInfo)
                     in Returns (Inr \<lparr>Name = info_Name (Info metaInfo),
                                      InfoHash = infoHash,
                                      Size = totalSize,
                                      Files = files,
                                      WebSeeds = webSeeds,
                                      CreatedBy = meta_CreatedBy metaInfo,
                                      CreatedDate = createdDate,
                                      Comment = meta_Comment metaInfo,
                                      FilePath = filePath\<rparr>)))))"

text \<open>\<^verbatim>\<open>LoadTorrents\<close>, lines 124 to 146. A panic of a parse ends the scan; an error
  skips the file.\<close>

definition HasSuffix :: "string \<Rightarrow> string \<Rightarrow> bool" where
  "HasSuffix s suff =
     (length suff \<le> length s \<and> drop (length s - length suff) s = suff)"

definition is_candidate :: "env \<Rightarrow> FileInfo \<Rightarrow> bool" where
  "is_candidate env file = (\<not> IsDir file \<and> HasSuffix (ToLower env (fi_Name file)) ''.torrent'')"

fun load_loop :: "env \<Rightarrow> string \<Rightarrow> FileInfo list \<Rightarrow> TorrentInfo list \<Rightarrow> TorrentInfo list outcome" where
  "load_loop env dir [] ts = Returns ts"
| "load_loop env dir (file # files) ts =
     (if is_candidate env file then
        (case parseTorrentFile env (filepath_Join env dir (fi_Name file)) of
           Panics \<Rightarrow> Panics
         | Returns (Inl err) \<Rightarrow> load_loop env dir files ts
         | Returns (Inr torrentInfo) \<Rightarrow> load_loop env dir files (ts @ [torrentInfo]))
      else load_loop env dir files ts)"

definition LoadTorrents :: "env \<Rightarrow> TorrentManager \<Rightarrow> (TorrentManager \<times> error option) outcome" where
  "LoadTorrents env tm =
     (case ReadDir env (torrentsDir tm) of
        Inl err \<Rightarrow> Returns (tm, Some (ReadingDirectory err))
      | Inr files \<Rightarrow>
          (case load_loop env (torrentsDir tm) files [] of
             Panics \<Rightarrow> Panics
           | Returns ts \<Rightarrow> Returns (tm\<lparr>torrents := ts\<rparr>, None)))"

text \<open>\<^verbatim>\<open>SearchTorrents\<close>, lines 265 to 280. \<open>Contains\<close> is \<^verbatim>\<open>strings.Contains\<close>:
  the second string occurs in the first at some position.\<close>

fun Contains :: "string \<Rightarrow> string \<Rightarrow> bool" where
  "Contains [] substr = (substr = [])"
| "Contains (c # s) substr = (prefix substr (c # s) \<or> Contains s substr)"

fun search_loop :: "env \<Rightarrow> TorrentInfo list \<Rightarrow> string \<Rightarrow> TorrentInfo list \<Rightarrow> TorrentInfo list" where
  "search_loop env [] query results = results"
| "search_loop env (torrent # rest) query results =
     (if Contains (ToLower env (Name torrent)) query
      then search_loop env rest query (results @ [torrent])
      else search_loop env rest query results)"

definition SearchTorrents :: "env \<Rightarrow> TorrentManager \<Rightarrow> string \<Rightarrow> TorrentInfo list" where
  "SearchTorrents env tm query =
     (if query = [] then torrents tm
      else search_loop env (torrents tm) (ToLower env query) [])"

section \<open>Notions used to state the properties\<close>

text \<open>
  \<open>canon v\<close> is \<open>v\<close> with the pairs of every dictionary listed in ascending order of
  their keys: the same keys with the same values, in the order the encoder writes them.
  Two values with the same \<open>canon\<close> are observationally equal. A value is \<open>representable\<close>
  when no dictionary in it holds a key twice (a dictionary is a mapping).
\<close>

fun canon :: "bvalue \<Rightarrow> bvalue" where
  "canon (Integer i) = Integer i"
| "canon (ByteString s) = ByteString s"
| "canon (List xs) = List (map canon xs)"
| "canon (Dictionary kvs) = Dictionary (map (\<lambda>(k, v). (k, canon v)) (sort_key fst kvs))"

fun representable :: "bvalue \<Rightarrow> bool" where
  "representable (Integer i) = True"
| "representable (ByteString s) = True"
| "representable (List xs) = list_all representable xs"
| "representable (Dictionary kvs) =
     (distinct (map fst kvs) \<and> list_all (\<lambda>(k, v). representable v) kvs)"

definition encode_pair :: "string \<times> bvalue \<Rightarrow> string" where
  "encode_pair p = encode_bytes (fst p) @ Encode (snd p)"

text \<open>
  \<open>string_elements\<close> keeps the byte strings of a list, in order. \<open>parsed_records\<close>
  are the records of the candidate files of a listing whose parse returns a record, in the
  order of the listing.
\<close>

definition string_elements :: "bvalue list \<Rightarrow> string list" where
  "string_elements xs = concat (map (\<lambda>x. case x of ByteString s \<Rightarrow> [s] | _ \<Rightarrow> []) xs)"

definition parsed_records :: "env \<Rightarrow> string \<Rightarrow> FileInfo list \<Rightarrow> TorrentInfo list" where
  "parsed_records env dir files =
     concat (map (\<lambda>file.
       if is_candidate env file then
         (case parseTorrentFile env (filepath_Join env dir (fi_Name file)) of
            Returns (Inr torrentInfo) \<Rightarrow> [torrentInfo]
          | _ \<Rightarrow> [])
       else []) files)"

text \<open>
  \<open>dict_of_entries\<close> is the dictionary that the entries of \<open>split_pairs\<close> stand for,
  a later pair replacing an earlier one with the same key, as in a Go map. \<open>top_keys\<close>
  are the keys of the top-level dictionary of a file as they are written, repetitions
  included.
\<close>

fun dict_of_entries :: "entry list \<Rightarrow> (string \<times> bvalue) list" where
  "dict_of_entries [] = []"
| "dict_of_entries ((k, r, dv) # es) =
     (case dv of Some v \<Rightarrow> dict_add k v (dict_of_entries es) | None \<Rightarrow> dict_of_entries es)"

definition top_keys :: "string \<Rightarrow> string list" where
  "top_keys data = (case data of [] \<Rightarrow> [] | c # s \<Rightarrow> map fst (fst (split_pairs (length s) s)))"

text \<open>
  \<open>LoadTorrents_writes\<close> lists the values that \<^verbatim>\<open>LoadTorrents\<close> assigns to
  \<^verbatim>\<open>tm.torrents\<close>, in order: the empty slice of line 130, then the result of each
  \<^verbatim>\<open>append\<close> of line 140. \<open>load_writes\<close> follows the loop as \<open>load_loop\<close> does.
\<close>

fun load_writes :: "env \<Rightarrow> string \<Rightarrow> FileInfo list \<Rightarrow> TorrentInfo list \<Rightarrow> TorrentInfo list list" where
  "load_writes env dir [] ts = []"
| "load_writes env dir (file # files) ts =
     (if is_candidate env file then
        (case parseTorrentFile env (filepath_Join env dir (fi_Name file)) of
           Panics \<Rightarrow> []
         | Returns (Inl err) \<Rightarrow> load_writes env dir files ts
         | Returns (Inr torrentInfo) \<Rightarrow>
             (ts @ [torrentInfo]) # load_writes env dir files (ts @ [torrentInfo]))
      else load_writes env dir files ts)"

definition LoadTorrents_writes :: "env \<Rightarrow> TorrentManager \<Rightarrow> TorrentInfo list list" where
  "LoadTorrents_writes env tm =
     (case ReadDir env (torrentsDir tm) of
        Inl err \<Rightarrow> []
      | Inr files \<Rightarrow> [] # load_writes env (torrentsDir tm) files [])"

section \<open>A concrete environment\<close>

text \<open>
  The theorems below hold for every environment. To run the program on concrete files the
  environment is instantiated: lower-casing of ASCII letters stands for
  \<^verbatim>\<open>strings.ToLower\<close> (the two agree on ASCII names), \<open>example_digest\<close> stands for
  \<^verbatim>\<open>sha1.Sum\<close> (any function from bytes to a 20-byte digest serves, since no property
  below depends on the digest's values), and the directory \<^verbatim>\<open>torrents\<close> holds the given
  files. \<open>ReadFile_buffer\<close> is the slice that \<^verbatim>\<open>os.ReadFile\<close> of Go 1.22 (the version
  of the Dockerfile) returns for a file of known size: the contents in a zeroed buffer of
  capacity \<open>max 512 (size + 1)\<close>.

  \<open>observed_redecode_interface\<close> is the library's answer in the one case met below: the
  field holds a byte string and the key comes again with a byte string. The library then
  stores into the string that the interface holds, and the call panics. For every other
  shape, and for slices, the example environment answers with a type error; no statement
  below depends on that choice.
\<close>

definition ascii_lower :: "string \<Rightarrow> string" where
  "ascii_lower s =
     map (\<lambda>c. if CHR ''A'' \<le> c \<and> c \<le> CHR ''Z'' then char_of (of_char c + (32::nat)) else c) s"

definition example_digest :: "string \<Rightarrow> string" where
  "example_digest bs = take 20 (rev bs @ replicate 20 (CHR 0x00))"

definition ReadFile_buffer :: "string \<Rightarrow> go_bytes" where
  "ReadFile_buffer contents =
     \<lparr>bytes = contents,
      spare = replicate (max 512 (length contents + 1) - length contents) (CHR 0x00)\<rparr>"

definition observed_redecode_interface :: "any \<Rightarrow> string \<Rightarrow> (error + any) outcome" where
  "observed_redecode_interface cur r =
     (case cur of
        AnyValue (ByteString old) \<Rightarrow>
          (case decode_bytes r of None \<Rightarrow> Returns (Inl BencodeType) | Some new \<Rightarrow> Panics)
      | _ \<Rightarrow> Returns (Inl BencodeType))"

definition example_env :: "(string \<times> go_bytes) list \<Rightarrow> go_time \<Rightarrow> env" where
  "example_env files now =
     \<lparr>sha1_Sum = example_digest,
      ToLower = ascii_lower,
      filepath_Join = (\<lambda>dir name. dir @ ''/'' @ name),
      ReadDir = (\<lambda>dir. if dir = ''torrents''
                       then Inr (map (\<lambda>(name, d). \<lparr>fi_Name = name, IsDir = False\<rparr>) files)
                       else Inl OsError),
      ReadFile = (\<lambda>path. case map_of (map (\<lambda>(name, d). (''torrents/'' @ name, d)) files) path of
                         None \<Rightarrow> Inl OsError
                       | Some d \<Rightarrow> Inr d),
      time_Now = (\<lambda>path. now),
      redecode_interface = observed_redecode_interface,
      redecode_files = (\<lambda>cur r. Returns (Inl BencodeType)),
      redecode_path = (\<lambda>cur r. Returns (Inl BencodeType))\<rparr>"

definition multi_file_torrent :: string where
  "multi_file_torrent =
     ''d4:infod5:filesld6:lengthi3e4:pathl1:aeed6:lengthi7e4:pathl1:beee4:name1:m'' @
     ''12:piece lengthi5e6:pieces0:e8:url-listl8:http://xi5e8:http://yee''"

definition movie_record :: TorrentInfo where
  "movie_record =
     \<lparr>Name = ''Movie.2023'', InfoHash = [], Size = 0, Files = [], WebSeeds = [],
      CreatedBy = [], CreatedDate = time_Unix 0 0, Comment = [], FilePath = []\<rparr>"

definition movie_catalog :: TorrentManager where
  "movie_catalog = \<lparr>torrentsDir = ''torrents'', torrents = [movie_record]\<rparr>"

definition single_file_torrent :: string where
  "single_file_torrent =
     ''d8:announce1:x4:infod6:lengthi5e4:name5:a.txt12:piece lengthi5e'' @
     ''6:pieces20:aaaaaaaaaaaaaaaaaaaaee''"

definition unsorted_torrent :: string where
  "unsorted_torrent =
     ''d4:infod4:name5:a.txt6:pieces20:aaaaaaaaaaaaaaaaaaaa6:lengthi5e'' @
     ''12:piece lengthi5ee8:announce1:ye''"


definition no_info_torrent :: string where
  "no_info_torrent = ''d7:comment9:no info!!e''"

definition now0 :: go_time where "now0 = time_Unix 1700000000 0"

definition two_orders_env :: env where
  "two_orders_env =
     example_env [(''a.torrent'', ReadFile_buffer single_file_torrent),
                  (''b.torrent'', ReadFile_buffer unsorted_torrent)] now0"

definition single_file_record :: "string \<Rightarrow> go_time \<Rightarrow> TorrentInfo" where
  "single_file_record path created =
     \<lparr>Name = ''a.txt'', InfoHash = ''6561616161616161616161616161616161616161'', Size = 5,
      Files = [\<lparr>Path = [''a.txt''], Length = 5\<rparr>], WebSeeds = [], CreatedBy = [],
      CreatedDate = created, Comment = [], FilePath = path\<rparr>"

definition nested_value :: bvalue where
  "nested_value =
     Dictionary [(''b'', Integer (- 5)),
                 (''a'', List [ByteString ''xyz'',
                               Dictionary [(''z'', Integer 1), (''y'', Integer 2)]])]"

definition multi_file_record :: TorrentInfo where
  "multi_file_record =
     \<lparr>Name = ''m'', InfoHash = ''653a307365636569703a366535696874676e656c'', Size = 10,
      Files = [\<lparr>Path = [''a''], Length = 3\<rparr>, \<lparr>Path = [''b''], Length = 7\<rparr>],
      WebSeeds = [''http://x'', ''http://y''], CreatedBy = [],
      CreatedDate = now0, Comment = [], FilePath = ''torrents/m.torrent''\<rparr>"

definition multi_file_info :: "(string \<times> bvalue) list" where
  "multi_file_info =
     [(''files'', List
         [Dictionary [(''length'', Integer 3), (''path'', List [ByteString ''a''])],
          Dictionary [(''length'', Integer 7), (''path'', List [ByteString ''b''])]]),
      (''name'', ByteString ''m''),
      (''piece length'', Integer 5),
      (''pieces'', ByteString [])]"

definition one_file_env :: "string \<Rightarrow> go_bytes \<Rightarrow> go_time \<Rightarrow> env" where
  "one_file_env name d now = example_env [(name, d)] now"

definition no_info_record :: TorrentInfo where
  "no_info_record =
     \<lparr>Name = [], InfoHash = ''64373a636f6d6d656e74393a6e6f20696e666f21'', Size = 0,
      Files = [], WebSeeds = [], CreatedBy = [], CreatedDate = now0,
      Comment = ''no info!!'', FilePath = ''torrents/n.torrent''\<rparr>"

definition repeated_key_torrent :: string where
  "repeated_key_torrent = ''d4:infod4:name1:ae8:url-list1:a8:url-list1:be''"

definition repeated_key_env :: env where
  "repeated_key_env =
     example_env [(''a.torrent'', ReadFile_buffer single_file_torrent),
                  (''dup.torrent'', ReadFile_buffer repeated_key_torrent),
                  (''c.torrent'', ReadFile_buffer unsorted_torrent)] now0"



definition integer_url_list_torrent :: string where
  "integer_url_list_torrent = ''d4:infod4:name1:me8:url-listi5ee''"

section \<open>The codec reads back what it writes\<close>

lemma digit_char_props:
  assumes "d < 10"
  shows "is_digit (digit_char d)" and "digit_val (digit_char d) = int d"
    and "(digit_char d = CHR ''0'') = (d = 0)"
proof -
  from assms have "d \<in> {0, 1, 2, 3, 4, 5, 6, 7, 8, 9}" by auto
  then show "is_digit (digit_char d)" and "digit_val (digit_char d) = int d"
    and "(digit_char d = CHR ''0'') = (d = 0)"
    by (auto simp: is_digit_def digit_char_def digit_val_def)
qed

lemma show_nat_digits: "list_all is_digit (show_nat n)"
proof (induction n rule: show_nat.induct)
  case (1 n)
  then show ?case
    by (subst show_nat.simps) (simp add: digit_char_props)
qed

lemma show_nat_not_Nil: "show_nat n \<noteq> []"
  by (subst show_nat.simps) simp

lemma hd_show_nat: "(hd (show_nat n) = CHR ''0'') = (n = 0)"
proof (induction n rule: show_nat.induct)
  case (1 n)
  show ?case
  proof (cases "n < 10")
    case True
    then show ?thesis
      by (subst show_nat.simps) (simp add: digit_char_props)
  next
    case False
    then have "hd (show_nat n) = hd (show_nat (n div 10))"
      by (subst show_nat.simps) (simp add: show_nat_not_Nil)
    with False 1 show ?thesis by simp
  qed
qed

lemma digits_val_snoc: "digits_val (ds @ [c]) = 10 * digits_val ds + digit_val c"
  by (simp add: digits_val_def)

lemma digits_val_show_nat: "digits_val (show_nat n) = int n"
proof (induction n rule: show_nat.induct)
  case (1 n)
  show ?case
  proof (cases "n < 10")
    case True
    then show ?thesis
      by (subst show_nat.simps) (simp add: digits_val_def digit_char_props)
  next
    case False
    have "int n = 10 * int (n div 10) + int (n mod 10)"
    proof -
      have "n = 10 * (n div 10) + n mod 10" by simp
      then have "int n = int (10 * (n div 10) + n mod 10)" by (rule arg_cong)
      then show ?thesis by (simp only: of_nat_add of_nat_mult of_nat_numeral)
    qed
    with False 1 show ?thesis
      by (subst show_nat.simps) (simp add: digits_val_snoc digit_char_props)
  qed
qed

lemma length_show_nat_one: "1 < length (show_nat n) \<Longrightarrow> n \<noteq> 0"
  by (subst (asm) show_nat.simps) (auto split: if_splits)

lemma read_number_show_nat:
  assumes "\<not> is_digit c"
  shows "read_number (show_nat n @ c # r) = Some (int n, c # r)"
proof -
  have all: "\<forall>x \<in> set (show_nat n). is_digit x"
    using show_nat_digits [of n] by (simp add: list_all_iff)
  have tw: "takeWhile is_digit (show_nat n @ c # r) = show_nat n"
    using all assms by (simp add: takeWhile_tail)
  have dw: "dropWhile is_digit (show_nat n @ c # r) = c # r"
    using all assms by (simp add: dropWhile_append2)
  have lead: "\<not> (hd (show_nat n) = CHR ''0'' \<and> 1 < length (show_nat n))"
    using hd_show_nat [of n] length_show_nat_one [of n] by blast
  show ?thesis
    unfolding read_number_def Let_def tw dw
    using lead by (simp add: show_nat_not_Nil digits_val_show_nat)
qed

lemma colon_not_digit: "\<not> is_digit CHR '':''" and e_not_digit: "\<not> is_digit CHR ''e''"
  by (simp_all add: is_digit_def)

lemma decode_bytes_encode_bytes: "decode_bytes (encode_bytes s @ r) = Some (s, r)"
  by (simp add: decode_bytes_def encode_bytes_def read_number_show_nat colon_not_digit)

lemma decode_int_show_int: "decode_int (show_int (sint w) @ CHR ''e'' # r) = Some (w, r)"
proof (cases "sint w < 0")
  case True
  have lo: "- (2 ^ 63) \<le> sint w" using sint_ge [of w] by simp
  from True lo have n: "int (nat (- sint w)) = - sint w" "nat (- sint w) \<noteq> 0" by auto
  from lo have hi: "\<not> (2 ^ 63 < - sint w)" by simp
  have "decode_int (show_int (sint w) @ CHR ''e'' # r) =
          (case read_number (show_nat (nat (- sint w)) @ CHR ''e'' # r) of
             None \<Rightarrow> None
           | Some (n, r) \<Rightarrow>
               if n = 0 \<or> 2 ^ 63 < n then None else expect_e (word_of_int (- n)) r)"
    using True by (simp add: decode_int_def show_int_def)
  also have "\<dots> = Some (w, r)"
    using n hi True by (simp add: read_number_show_nat e_not_digit expect_e_def)
  finally show ?thesis .
next
  case False
  have hi: "sint w < 2 ^ 63" using sint_lt [of w] by simp
  from False have n: "int (nat (sint w)) = sint w" by simp
  have nm: "hd (show_nat (nat (sint w))) \<noteq> CHR ''-''"
    using show_nat_digits [of "nat (sint w)"] show_nat_not_Nil [of "nat (sint w)"]
    by (cases "show_nat (nat (sint w))") (auto simp: is_digit_def)
  obtain c cs where cs: "show_nat (nat (sint w)) = c # cs" "c \<noteq> CHR ''-''"
    using nm show_nat_not_Nil [of "nat (sint w)"] by (cases "show_nat (nat (sint w))") auto
  have "decode_int (show_int (sint w) @ CHR ''e'' # r) =
          (case read_number (show_nat (nat (sint w)) @ CHR ''e'' # r) of
             None \<Rightarrow> None
           | Some (n, r) \<Rightarrow>
               if 2 ^ 63 \<le> n then None else expect_e (word_of_int n) r)"
    using False cs by (simp add: decode_int_def show_int_def)
  also have "\<dots> = Some (w, r)"
    using n hi by (simp add: read_number_show_nat e_not_digit expect_e_def)
  finally show ?thesis .
qed

lemma Encode_Dictionary: 
  "Encode (Dictionary kvs) = CHR ''d'' # concat (map encode_pair (sort_key fst kvs)) @ ''e''"
proof -
  have "encode_pair = (\<lambda>(k, v). encode_bytes k @ Encode v)"
    by (auto simp: encode_pair_def fun_eq_iff)
  then show ?thesis by simp
qed

lemma encode_bytes_head: "\<exists>c cs. encode_bytes s = c # cs \<and> is_digit c"
  using show_nat_digits [of "length s"] show_nat_not_Nil [of "length s"]
  by (cases "show_nat (length s)") (auto simp: encode_bytes_def)

lemma Encode_head: "\<exists>c cs. Encode v = c # cs \<and> c \<noteq> CHR ''e''"
proof (cases v)
  case (ByteString s)
  then show ?thesis using encode_bytes_head [of s] by (auto simp: is_digit_def)
qed simp_all

lemma length_Encode_pos: "0 < length (Encode v)"
  using Encode_head [of v] by auto

lemma decode_items_Encode:
  assumes "\<And>x n r. x \<in> set xs \<Longrightarrow> length (Encode x) \<le> n \<Longrightarrow>
             decode_value n (Encode x @ r) = Some (canon x, r)"
    and "length (concat (map Encode xs)) < n"
  shows "decode_items n (concat (map Encode xs) @ CHR ''e'' # r) = Some (map canon xs, r)"
  using assms
proof (induction xs arbitrary: n)
  case Nil
  then obtain m where "n = Suc m" by (cases n) auto
  then show ?case by simp
next
  case (Cons x xs)
  from Cons.prems(2) obtain m where m: "n = Suc m" by (cases n) auto
  obtain c cs where c: "Encode x = c # cs" "c \<noteq> CHR ''e''"
    using Encode_head [of x] by blast
  from Cons.prems(2) m
  have "length (Encode x) + length (concat (map Encode xs)) < Suc m" by simp
  then have lx: "length (Encode x) \<le> m"
    and lxs: "length (concat (map Encode xs)) < m"
    using length_Encode_pos [of x] by linarith+
  have v: "decode_value m (Encode x @ concat (map Encode xs) @ CHR ''e'' # r) =
             Some (canon x, concat (map Encode xs) @ CHR ''e'' # r)"
    using Cons.prems(1) [of x m] lx by simp
  have rest: "decode_items m (concat (map Encode xs) @ CHR ''e'' # r) = Some (map canon xs, r)"
    using Cons.IH [of m] Cons.prems(1) lxs by simp
  have "decode_items (Suc m) (c # cs @ concat (map Encode xs) @ CHR ''e'' # r) =
          Some (canon x # map canon xs, r)"
    using c v rest by simp
  with m c show ?case by simp
qed

lemma dict_add_fresh: "k \<notin> fst ` set later \<Longrightarrow> dict_add k v later = (k, v) # later"
  by (simp add: dict_add_def)

lemma decode_pairs_Encode:
  assumes "\<And>k v n r. (k, v) \<in> set ps \<Longrightarrow> length (Encode v) \<le> n \<Longrightarrow>
             decode_value n (Encode v @ r) = Some (canon v, r)"
    and "distinct (map fst ps)"
    and "length (concat (map encode_pair ps)) < n"
  shows "decode_pairs n (concat (map encode_pair ps) @ CHR ''e'' # r) =
           Some (map (\<lambda>(k, v). (k, canon v)) ps, r)"
  using assms
proof (induction ps arbitrary: n)
  case Nil
  then obtain m where "n = Suc m" by (cases n) auto
  then show ?case by simp
next
  case (Cons p ps)
  obtain k v where p: "p = (k, v)" by (cases p)
  from Cons.prems(3) obtain m where m: "n = Suc m" by (cases n) auto
  obtain c cs where c: "encode_bytes k = c # cs" "is_digit c"
    using encode_bytes_head [of k] by blast
  then have ce: "c \<noteq> CHR ''e''" by (auto simp: is_digit_def)
  have "length (concat (map encode_pair (p # ps))) =
          Suc (length cs) + length (Encode v) + length (concat (map encode_pair ps))"
    using p c by (simp add: encode_pair_def)
  with Cons.prems(3) m have lv: "length (Encode v) \<le> m"
    and lps: "length (concat (map encode_pair ps)) < m"
    using length_Encode_pos [of v] by linarith+
  let ?tail = "concat (map encode_pair ps) @ CHR ''e'' # r"
  have key: "decode_bytes (c # cs @ Encode v @ ?tail) = Some (k, Encode v @ ?tail)"
    using decode_bytes_encode_bytes [of k "Encode v @ ?tail"] c by simp
  have val: "decode_value m (Encode v @ ?tail) = Some (canon v, ?tail)"
    using Cons.prems(1) [of k v m] p lv by simp
  have rest: "decode_pairs m ?tail = Some (map (\<lambda>(k, v). (k, canon v)) ps, r)"
  proof (rule Cons.IH)
    show "decode_value n (Encode v @ r) = Some (canon v, r)"
      if "(k, v) \<in> set ps" "length (Encode v) \<le> n" for k v n r
      using that Cons.prems(1) [of k v n r] by simp
    show "distinct (map fst ps)" using Cons.prems(2) by simp
    show "length (concat (map encode_pair ps)) < m" by (rule lps)
  qed
  have fresh: "k \<notin> fst ` set (map (\<lambda>(k, v). (k, canon v)) ps)"
    using Cons.prems(2) p by (force simp: image_iff)
  have split: "concat (map encode_pair (p # ps)) @ CHR ''e'' # r = c # cs @ Encode v @ ?tail"
    using p c by (simp add: encode_pair_def)
  have step: "decode_pairs (Suc m) (c # cs @ Encode v @ ?tail) =
          Some ((k, canon v) # map (\<lambda>(k, v). (k, canon v)) ps, r)"
    using ce key val rest dict_add_fresh [OF fresh] by simp
  show ?case unfolding m split step using p by simp
qed

lemma decode_value_Encode:
  "representable v \<Longrightarrow> length (Encode v) \<le> n \<Longrightarrow>
     decode_value n (Encode v @ r) = Some (canon v, r)"
proof (induction v arbitrary: n r)
  case (Integer i)
  then obtain m where "n = Suc m" by (cases n) auto
  then show ?case by (simp add: decode_int_show_int)
next
  case (ByteString s)
  then obtain m where m: "n = Suc m" using length_Encode_pos [of "ByteString s"] by (cases n) auto
  obtain c cs where c: "encode_bytes s = c # cs" "is_digit c"
    using encode_bytes_head [of s] by blast
  then have ne: "c \<noteq> CHR ''i''" "c \<noteq> CHR ''l''" "c \<noteq> CHR ''d''"
    by (auto simp: is_digit_def)
  have "decode_bytes (c # cs @ r) = Some (s, r)"
    using decode_bytes_encode_bytes [of s r] c by simp
  with m c ne show ?case by simp
next
  case (List xs)
  from List.prems(2) obtain m where m: "n = Suc m" by (cases n) auto
  with List.prems(2) have l: "length (concat (map Encode xs)) < m" by simp
  have "decode_items m (concat (map Encode xs) @ CHR ''e'' # r) = Some (map canon xs, r)"
    using List.IH List.prems(1) l by (intro decode_items_Encode) (auto simp: list_all_iff)
  with m show ?case by simp
next
  case (Dictionary kvs)
  let ?ps = "sort_key fst kvs"
  from Dictionary.prems(2) obtain m where m: "n = Suc m" by (cases n) auto
  with Dictionary.prems(2) have l: "length (concat (map encode_pair ?ps)) < m"
    by (simp add: Encode_Dictionary del: Encode.simps)
  have d: "distinct (map fst ?ps)"
    using Dictionary.prems(1) by (simp add: distinct_map)
  have ih: "\<And>k v n r. (k, v) \<in> set ?ps \<Longrightarrow> length (Encode v) \<le> n \<Longrightarrow>
             decode_value n (Encode v @ r) = Some (canon v, r)"
  proof -
    fix k v n r
    assume kv: "(k, v) \<in> set ?ps" and len: "length (Encode v) \<le> n"
    then have mem: "(k, v) \<in> set kvs" by simp
    with Dictionary.prems(1) have "representable v" by (auto simp: list_all_iff)
    with mem len show "decode_value n (Encode v @ r) = Some (canon v, r)"
      using Dictionary.IH [of "(k, v)" v n r] by simp
  qed
  have "decode_pairs m (concat (map encode_pair ?ps) @ CHR ''e'' # r) =
          Some (map (\<lambda>(k, v). (k, canon v)) ?ps, r)"
    using ih d l by (rule decode_pairs_Encode)
  with m show ?case by (simp add: Encode_Dictionary del: Encode.simps)
qed

lemma Encode_canon: "Encode (canon v) = Encode v"
proof (induction v)
  case (List xs)
  then have "map (Encode \<circ> canon) xs = map Encode xs" by simp
  then show ?case by (simp only: canon.simps Encode.simps map_map)
next
  case (Dictionary kvs)
  let ?ps = "sort_key fst kvs"
  let ?cs = "map (\<lambda>(k, v). (k, canon v)) ?ps"
  have e: "map fst ?cs = map fst ?ps" by (simp add: case_prod_beta)
  have "sorted (map fst ?ps)" by simp
  then have "sorted (map fst ?cs)" by (simp only: e)
  then have s: "sort_key fst ?cs = ?cs" by (rule sort_key_id_if_sorted)
  have me: "map encode_pair ?cs = map encode_pair ?ps"
    using Dictionary.IH by (auto simp: encode_pair_def)
  show ?case by (simp only: canon.simps Encode_Dictionary s me)
qed simp_all

section \<open>The length of the input is enough fuel\<close>

lemma read_number_rest: "read_number s = Some (n, r) \<Longrightarrow> length r < length s"
proof -
  assume a: "read_number s = Some (n, r)"
  then have r: "r = dropWhile is_digit s" and ne: "takeWhile is_digit s \<noteq> []"
    by (auto simp: read_number_def Let_def split: if_splits)
  have "length (takeWhile is_digit s) + length (dropWhile is_digit s) = length s"
    by (metis length_append takeWhile_dropWhile_id)
  with r ne show ?thesis by (cases "takeWhile is_digit s") auto
qed

lemma decode_bytes_rest: "decode_bytes s = Some (b, r) \<Longrightarrow> length r < length s"
  by (auto simp: decode_bytes_def split: option.splits list.splits if_splits
           dest!: read_number_rest)

lemma decode_int_rest: "decode_int s = Some (i, r) \<Longrightarrow> length r < length s"
  by (auto simp: decode_int_def expect_e_def split: option.splits list.splits if_splits
           dest!: read_number_rest)

lemma decode_fuel:
  "decode_value n s = Some (v, r) \<Longrightarrow>
     length r < length s \<and> (\<forall>m. length s - length r \<le> m \<longrightarrow> decode_value m s = Some (v, r))"
  "decode_items n s = Some (xs, r') \<Longrightarrow>
     length r' < length s \<and> (\<forall>m. length s - length r' \<le> m \<longrightarrow> decode_items m s = Some (xs, r'))"
  "decode_pairs n s = Some (kvs, r'') \<Longrightarrow>
     length r'' < length s \<and> (\<forall>m. length s - length r'' \<le> m \<longrightarrow> decode_pairs m s = Some (kvs, r''))"
proof (induction n s and n s and n s arbitrary: v r and xs r' and kvs r''
        rule: decode_value_decode_items_decode_pairs.induct)
  case (3 n c s)
  show ?case
  proof (cases "c = CHR ''i''")
    case True
    with "3.prems" obtain i where i: "decode_int s = Some (i, r)" "v = Integer i"
      by (auto split: option.splits)
    then have l: "length r < length s" by (auto dest: decode_int_rest)
    have "decode_value m (c # s) = Some (v, r)" if "length (c # s) - length r \<le> m" for m
    proof -
      from that l obtain m' where "m = Suc m'" by (cases m) auto
      with True i show ?thesis by simp
    qed
    with l show ?thesis by simp
  next
    case ni: False
    show ?thesis
    proof (cases "c = CHR ''l''")
      case True
      with ni "3.prems" obtain xs where i: "decode_items n s = Some (xs, r)" "v = List xs"
        by (auto split: option.splits)
      from "3.IH"(1) [OF ni True i(1)]
      have l: "length r < length s"
        and f: "\<And>m. length s - length r \<le> m \<Longrightarrow> decode_items m s = Some (xs, r)"
        by auto
      have "decode_value m (c # s) = Some (v, r)" if "length (c # s) - length r \<le> m" for m
      proof -
        from that l obtain m' where m: "m = Suc m'" by (cases m) auto
        with that l have "length s - length r \<le> m'" by simp
        then have "decode_items m' s = Some (xs, r)" by (rule f)
        with ni True i(2) m show ?thesis by simp
      qed
      with l show ?thesis by simp
    next
      case nl: False
      show ?thesis
      proof (cases "c = CHR ''d''")
        case True
        with ni nl "3.prems" obtain kvs where
          i: "decode_pairs n s = Some (kvs, r)" "v = Dictionary kvs"
          by (auto split: option.splits)
        from "3.IH"(2) [OF ni nl True i(1)]
        have l: "length r < length s"
          and f: "\<And>m. length s - length r \<le> m \<Longrightarrow> decode_pairs m s = Some (kvs, r)"
          by auto
        have "decode_value m (c # s) = Some (v, r)" if "length (c # s) - length r \<le> m" for m
        proof -
          from that l obtain m' where m: "m = Suc m'" by (cases m) auto
          with that l have "length s - length r \<le> m'" by simp
          then have "decode_pairs m' s = Some (kvs, r)" by (rule f)
          with ni nl True i(2) m show ?thesis by simp
        qed
        with l show ?thesis by simp
      next
        case nd: False
        with ni nl "3.prems" obtain b where
          i: "is_digit c" "decode_bytes (c # s) = Some (b, r)" "v = ByteString b"
          by (auto split: option.splits if_splits)
        from i(2) have l: "length r < length (c # s)" by (rule decode_bytes_rest)
        have "decode_value m (c # s) = Some (v, r)" if "length (c # s) - length r \<le> m" for m
        proof -
          from that l obtain m' where m: "m = Suc m'" by (cases m) auto
          with ni nl nd i show ?thesis by simp
        qed
        with l show ?thesis by simp
      qed
    qed
  qed
next
  case (6 n c s)
  show ?case
  proof (cases "c = CHR ''e''")
    case True
    with "6.prems" have "xs = []" "r' = s" by auto
    moreover have "decode_items m (c # s) = Some ([], s)" if "length (c # s) - length s \<le> m" for m
    proof -
      from that obtain m' where "m = Suc m'" by (cases m) auto
      with True show ?thesis by simp
    qed
    ultimately show ?thesis by simp
  next
    case False
    with "6.prems" obtain x r1 xs1 where
      v: "decode_value n (c # s) = Some (x, r1)" and
      i: "decode_items n r1 = Some (xs1, r')" and xs: "xs = x # xs1"
      by (auto split: option.splits)
    from "6.IH"(1) [OF False v]
    have l1: "length r1 < length (c # s)"
      and f1: "\<And>m. length (c # s) - length r1 \<le> m \<Longrightarrow> decode_value m (c # s) = Some (x, r1)"
      by auto
    from "6.IH"(2) [OF False v refl i]
    have l2: "length r' < length r1"
      and f2: "\<And>m. length r1 - length r' \<le> m \<Longrightarrow> decode_items m r1 = Some (xs1, r')"
      by auto
    show ?thesis
    proof (intro conjI allI impI)
      show "length r' < length (c # s)" using l1 l2 by simp
      fix m
      assume "length (c # s) - length r' \<le> m"
      then obtain m' where m: "m = Suc m'" and m': "length (c # s) - length r' \<le> Suc m'"
        using l1 l2 by (cases m) auto
      have "decode_value m' (c # s) = Some (x, r1)"
        using l1 l2 m' by (intro f1) linarith
      moreover have "decode_items m' r1 = Some (xs1, r')"
        using l1 l2 m' by (intro f2) linarith
      ultimately show "decode_items m (c # s) = Some (xs, r')"
        using False xs unfolding m by simp
    qed
  qed
next
  case (9 n c s)
  show ?case
  proof (cases "c = CHR ''e''")
    case True
    with "9.prems" have "kvs = []" "r'' = s" by auto
    moreover have "decode_pairs m (c # s) = Some ([], s)" if "length (c # s) - length s \<le> m" for m
    proof -
      from that obtain m' where "m = Suc m'" by (cases m) auto
      with True show ?thesis by simp
    qed
    ultimately show ?thesis by simp
  next
    case False
    with "9.prems" obtain k r0 x r1 kvs1 where
      b: "decode_bytes (c # s) = Some (k, r0)" and
      v: "decode_value n r0 = Some (x, r1)" and
      i: "decode_pairs n r1 = Some (kvs1, r'')" and kvs: "kvs = dict_add k x kvs1"
      by (auto split: option.splits)
    have l0: "length r0 < length (c # s)" using b by (rule decode_bytes_rest)
    from "9.IH"(1) [OF False b refl v]
    have l1: "length r1 < length r0"
      and f1: "\<And>m. length r0 - length r1 \<le> m \<Longrightarrow> decode_value m r0 = Some (x, r1)"
      by auto
    from "9.IH"(2) [OF False b refl v refl i]
    have l2: "length r'' < length r1"
      and f2: "\<And>m. length r1 - length r'' \<le> m \<Longrightarrow> decode_pairs m r1 = Some (kvs1, r'')"
      by auto
    show ?thesis
    proof (intro conjI allI impI)
      show "length r'' < length (c # s)" using l0 l1 l2 by simp
      fix m
      assume "length (c # s) - length r'' \<le> m"
      then obtain m' where m: "m = Suc m'" and m': "length (c # s) - length r'' \<le> Suc m'"
        using l0 l1 l2 by (cases m) auto
      have "decode_value m' r0 = Some (x, r1)"
        using l0 l1 l2 m' by (intro f1) linarith
      moreover have "decode_pairs m' r1 = Some (kvs1, r'')"
        using l0 l1 l2 m' by (intro f2) linarith
      ultimately show "decode_pairs m (c # s) = Some (kvs, r'')"
        using False b kvs unfolding m by simp
    qed
  qed
qed simp_all

lemma decode_value_fuel:
  assumes "decode_value n b = Some (v, r)"
  shows "decode_value (length b) b = Some (v, r)"
  using decode_fuel(1) [OF assms] by simp

section \<open>Decoded dictionaries hold each key once\<close>

lemma dict_add_distinct:
  "distinct (map fst kvs) \<Longrightarrow> distinct (map fst (dict_add k v kvs))"
  by (simp add: dict_add_def)

lemma dict_add_all:
  "P (k, v) \<Longrightarrow> list_all P kvs \<Longrightarrow> list_all P (dict_add k v kvs)"
  by (simp add: dict_add_def)

lemma decode_representable:
  "decode_value n s = Some (v, r) \<Longrightarrow> representable v"
  "decode_items n s = Some (xs, r') \<Longrightarrow> list_all representable xs"
  "decode_pairs n s = Some (kvs, r'') \<Longrightarrow>
     distinct (map fst kvs) \<and> list_all (\<lambda>(k, v). representable v) kvs"
proof (induction n s and n s and n s arbitrary: v r and xs r' and kvs r''
        rule: decode_value_decode_items_decode_pairs.induct)
  case (3 n c s)
  then show ?case
    by (auto split: if_splits option.splits)
next
  case (6 n c s)
  then show ?case
    by (auto split: if_splits option.splits)
next
  case (9 n c s)
  then show ?case
    by (auto split: if_splits option.splits intro!: dict_add_distinct dict_add_all)
qed simp_all

lemma Decode_Inr:
  assumes "Decode b = Inr v"
  obtains r where "decode_value (length b) b = Some (v, r)"
  using assms by (auto simp: Decode_def split: option.splits bvalue.splits)

lemma Decode_representable: "Decode b = Inr v \<Longrightarrow> representable v"
  by (erule Decode_Inr) (rule decode_representable(1))

lemma representable_entry:
  assumes "representable (Dictionary kvs)" and "map_of kvs k = Some v"
  shows "representable v"
proof -
  from assms(2) have "(k, v) \<in> set kvs" by (rule map_of_SomeD)
  with assms(1) show ?thesis by (auto simp: list_all_iff)
qed

lemma sort_key_entries_unique:
  assumes "distinct (map fst xs)" and "distinct (map fst ys)" and "set xs = set ys"
  shows "sort_key fst xs = sort_key fst ys"
proof (rule map_sorted_distinct_set_unique [where f = fst])
  from assms(1) have "inj_on fst (set xs)" by (simp add: distinct_map)
  with assms(3) show "inj_on fst (set (sort_key fst xs) \<union> set (sort_key fst ys))" by simp
  show "distinct (map fst (sort_key fst xs))" using assms(1) by (simp add: distinct_map)
  show "distinct (map fst (sort_key fst ys))" using assms(2) by (simp add: distinct_map)
  show "set (sort_key fst xs) = set (sort_key fst ys)" using assms(3) by simp
qed simp_all

lemma Encode_entries_unique:
  assumes "distinct (map fst xs)" and "distinct (map fst ys)" and "set xs = set ys"
  shows "Encode (Dictionary xs) = Encode (Dictionary ys)"
  using sort_key_entries_unique [OF assms] by simp

lemma Decode_Encode_Dictionary:
  assumes "representable (Dictionary kvs)"
  shows "Decode (Encode (Dictionary kvs)) = Inr (canon (Dictionary kvs))"
proof -
  have "decode_value (length (Encode (Dictionary kvs))) (Encode (Dictionary kvs) @ []) =
          Some (canon (Dictionary kvs), [])"
    using assms by (rule decode_value_Encode) simp
  then show ?thesis by (simp add: Decode_def)
qed

lemma hex_digit_lower: "n < 16 \<Longrightarrow> hex_digit n \<in> set ''0123456789abcdef''"
  unfolding hex_digit_def by (rule nth_mem) simp

lemma hex_encode_lower: "set (hex_encode bs) \<subseteq> set ''0123456789abcdef''"
proof -
  have "hex_digit (of_char c div 16) \<in> set ''0123456789abcdef''"
    and "hex_digit (of_char c mod 16) \<in> set ''0123456789abcdef''" for c :: char
  proof -
    have "(of_char c :: nat) < 256" by (rule nat_of_char_less_256)
    then have "(of_char c :: nat) div 16 < 16" by arith
    then show "hex_digit (of_char c div 16) \<in> set ''0123456789abcdef''"
      by (rule hex_digit_lower)
    show "hex_digit (of_char c mod 16) \<in> set ''0123456789abcdef''"
      by (rule hex_digit_lower) simp
  qed
  then show ?thesis unfolding hex_encode_def by (induction bs) auto
qed

lemma length_hex_encode: "length (hex_encode bs) = 2 * length bs"
  unfolding hex_encode_def by (induction bs) simp_all

section \<open>Facts about the program\<close>

lemma then_fill_Inr:
  "(then_fill res f = Returns (Inr y)) = (\<exists>x. res = Returns (Inr x) \<and> f x = Returns (Inr y))"
  by (auto simp: then_fill_def split: outcome.splits sum.splits)

lemma finish_Inr: "(finish closed res = Returns (Inr x)) = (closed \<and> res = Returns (Inr x))"
  by (auto simp: finish_def then_fill_Inr)

lemma want_value_Inr: "(want_value dv = Returns (Inr v)) = (dv = Some v)"
  by (auto simp: want_value_def split: option.splits)


lemma want_int64_Inr: "(want_int64 dv = Returns (Inr i)) = (dv = Some (Integer i))"
proof (cases dv)
  case None
  then show ?thesis by (simp add: want_int64_def then_fill_def want_value_def)
next
  case (Some v)
  then show ?thesis by (cases v) (auto simp: want_int64_def then_fill_def want_value_def)
qed

lemma decode_interface_Inr:
  "decode_interface env cur r dv = Returns (Inr a) \<Longrightarrow>
     \<exists>v. dv = Some v \<and> (cur = AnyNil \<longrightarrow> a = AnyValue v)"
  by (auto simp: decode_interface_def then_fill_Inr want_value_Inr split: if_splits)

lemma map_of_dict_add:
  "map_of (dict_add k v kvs) key =
     (case map_of kvs key of Some x \<Rightarrow> Some x | None \<Rightarrow> if key = k then Some v else None)"
proof (cases "k \<in> fst ` set kvs")
  case True
  then have "map_of kvs k \<noteq> None" by (simp add: map_of_eq_None_iff)
  with True show ?thesis by (auto simp: dict_add_def split: option.splits)
next
  case False
  then have "map_of kvs k = None" by (simp add: map_of_eq_None_iff)
  with False show ?thesis by (auto simp: dict_add_def split: option.splits)
qed

lemma split_pairs_decode:
  "split_pairs n s = (es, True) \<Longrightarrow>
     \<exists>rest. decode_pairs (length s) s = Some (dict_of_entries es, rest)"
proof (induction n s arbitrary: es rule: split_pairs.induct)
  case (3 n c s)
  show ?case
  proof (cases "c = CHR ''e''")
    case True
    with "3.prems" show ?thesis by simp
  next
    case False
    with "3.prems" obtain k r v r' es' where
      k: "decode_bytes (c # s) = Some (k, r)" and
      v: "decode_value n r = Some (v, r')" and
      s: "split_pairs n r' = (es', True)" and
      es: "es = (k, r, Some v) # es'"
      by (auto split: option.splits prod.splits)
    from k have lr: "length r < length (c # s)" by (rule decode_bytes_rest)
    from decode_fuel(1) [OF v] have lr': "length r' < length r"
      and fv: "\<And>m. length r - length r' \<le> m \<Longrightarrow> decode_value m r = Some (v, r')"
      by auto
    from "3.IH" [OF False k refl v refl s] obtain rest where
      p: "decode_pairs (length r') r' = Some (dict_of_entries es', rest)"
      by auto
    from decode_fuel(3) [OF p]
    have fp: "\<And>m. length r' - length rest \<le> m \<Longrightarrow> decode_pairs m r' = Some (dict_of_entries es', rest)"
      by auto
    have "decode_value (length s) r = Some (v, r')" using lr lr' by (intro fv) simp
    moreover have "decode_pairs (length s) r' = Some (dict_of_entries es', rest)"
      using lr lr' by (intro fp) simp
    ultimately have "decode_pairs (Suc (length s)) (c # s) = Some (dict_of_entries es, rest)"
      using False k es by simp
    then show ?thesis by simp
  qed
qed simp_all

lemma DecodeBytes_TorrentMetaInfo_Cons:
  "DecodeBytes_TorrentMetaInfo env (CHR ''d'' # s) =
     finish (snd (split_pairs (length s) s))
       (fill_TorrentMetaInfo env (fst (split_pairs (length s) s)) zero_TorrentMetaInfo)"
  by (simp add: DecodeBytes_TorrentMetaInfo_def case_prod_beta)

lemma DecodeBytes_TorrentMetaInfo_Inr:
  assumes "DecodeBytes_TorrentMetaInfo env data = Returns (Inr m)"
  obtains s es where "data = CHR ''d'' # s"
    and "split_pairs (length s) s = (es, True)"
    and "fill_TorrentMetaInfo env es zero_TorrentMetaInfo = Returns (Inr m)"
    and "Decode data = Inr (Dictionary (dict_of_entries es))"
proof -
  have "\<exists>s. data = CHR ''d'' # s"
  proof (cases data)
    case Nil
    with assms show ?thesis by (simp add: DecodeBytes_TorrentMetaInfo_def)
  next
    case (Cons c s)
    with assms have "c = CHR ''d''"
      by (cases "c = CHR ''d''") (simp_all add: DecodeBytes_TorrentMetaInfo_def)
    with Cons show ?thesis by simp
  qed
  then obtain s where d: "data = CHR ''d'' # s" ..
  obtain es closed where sp: "split_pairs (length s) s = (es, closed)"
    by (cases "split_pairs (length s) s")
  from assms have "finish closed (fill_TorrentMetaInfo env es zero_TorrentMetaInfo) = Returns (Inr m)"
    unfolding d DecodeBytes_TorrentMetaInfo_Cons sp by simp
  then have c: "closed"
    and f: "fill_TorrentMetaInfo env es zero_TorrentMetaInfo = Returns (Inr m)"
    by (simp_all add: finish_Inr)
  from sp c have sp': "split_pairs (length s) s = (es, True)" by simp
  then obtain rest where "decode_pairs (length s) s = Some (dict_of_entries es, rest)"
    using split_pairs_decode by blast
  then have "Decode data = Inr (Dictionary (dict_of_entries es))"
    using d by (simp add: Decode_def)
  with d sp' f that show ?thesis by blast
qed

lemma fill_CreationDate:
  "fill_TorrentMetaInfo env es m0 = Returns (Inr m) \<Longrightarrow>
     (case map_of (dict_of_entries es) ''creation date'' of
        None \<Rightarrow> CreationDate m = CreationDate m0
      | Some (Integer t) \<Rightarrow> CreationDate m = t
      | Some other \<Rightarrow> False)"
proof (induction es arbitrary: m0)
  case Nil
  then show ?case by simp
next
  case (Cons e es)
  obtain k r dv where e: "e = (k, r, dv)" by (cases e)
  from Cons.prems e obtain m1 where
    step: "fill_TorrentMetaInfo env es m1 = Returns (Inr m)"
    and cd: "k = ''creation date'' \<Longrightarrow> \<exists>t. dv = Some (Integer t) \<and> CreationDate m1 = t"
    and other: "k \<noteq> ''creation date'' \<Longrightarrow> CreationDate m1 = CreationDate m0"
    by (auto simp: then_fill_Inr want_int64_Inr split: if_splits)
  from Cons.IH [OF step]
  have ih: "case map_of (dict_of_entries es) ''creation date'' of
        None \<Rightarrow> CreationDate m = CreationDate m1
      | Some (Integer t) \<Rightarrow> CreationDate m = t
      | Some other \<Rightarrow> False" .
  show ?case
  proof (cases "k = ''creation date''")
    case True
    with cd obtain t where "dv = Some (Integer t)" "CreationDate m1 = t" by blast
    with ih e True show ?thesis
      by (auto simp: map_of_dict_add split: option.splits bvalue.splits)
  next
    case False
    with other have "CreationDate m1 = CreationDate m0" by simp
    with ih e False show ?thesis
      by (cases dv) (auto simp: map_of_dict_add split: option.splits bvalue.splits)
  qed
qed

lemma parseTorrentFile_Inr:
  assumes "parseTorrentFile env p = Returns (Inr r)"
  obtains d m where "ReadFile env p = Inr d"
    and "DecodeBytes_TorrentMetaInfo env (bytes d) = Returns (Inr m)"
    and "case calculateInfoHash env (bytes d) of
           Inr h \<Rightarrow> InfoHash r = h
         | Inl e \<Rightarrow> 20 \<le> cap d \<and> InfoHash r = hex_encode (take 20 (bytes d @ spare d))"
    and "Name r = info_Name (Info m)"
    and "(Size r, Files r) =
           (if 0 < sint (info_Length (Info m))
            then (info_Length (Info m),
                  [\<lparr>Path = [info_Name (Info m)], Length = info_Length (Info m)\<rparr>])
            else files_loop (info_Files (Info m)) 0 [])"
    and "CreatedDate r =
           (if 0 < sint (CreationDate m) then time_Unix (CreationDate m) 0 else time_Now env p)"
    and "WebSeeds r = extractWebSeeds (URLList m)"
    and "FilePath r = p"
proof -
  from assms obtain d where d: "ReadFile env p = Inr d"
    by (cases "ReadFile env p") (auto simp: parseTorrentFile_def)
  from assms d obtain m where m: "DecodeBytes_TorrentMetaInfo env (bytes d) = Returns (Inr m)"
    by (cases "DecodeBytes_TorrentMetaInfo env (bytes d)")
       (auto simp: parseTorrentFile_def split: sum.splits)
  obtain h where h: "(case calculateInfoHash env (bytes d) of
                        Inr h \<Rightarrow> Some h
                      | Inl e \<Rightarrow> map_option hex_encode (slice_to d 20)) = Some h"
    using assms d m
    by (cases "case calculateInfoHash env (bytes d) of
                        Inr h \<Rightarrow> Some h
                      | Inl e \<Rightarrow> map_option hex_encode (slice_to d 20)")
       (auto simp: parseTorrentFile_def)
  have r: "r = \<lparr>Name = info_Name (Info m), InfoHash = h,
                Size = fst (if 0 < sint (info_Length (Info m))
                            then (info_Length (Info m),
                                  [\<lparr>Path = [info_Name (Info m)], Length = info_Length (Info m)\<rparr>])
                            else files_loop (info_Files (Info m)) 0 []),
                Files = snd (if 0 < sint (info_Length (Info m))
                            then (info_Length (Info m),
                                  [\<lparr>Path = [info_Name (Info m)], Length = info_Length (Info m)\<rparr>])
                            else files_loop (info_Files (Info m)) 0 []),
                WebSeeds = extractWebSeeds (URLList m),
                CreatedBy = meta_CreatedBy m,
                CreatedDate = (if 0 < sint (CreationDate m) then time_Unix (CreationDate m) 0
                               else time_Now env p),
                Comment = meta_Comment m, FilePath = p\<rparr>"
    using assms d m h by (simp add: parseTorrentFile_def Let_def case_prod_beta)
  show ?thesis
  proof (rule that [OF d m])
    show "case calculateInfoHash env (bytes d) of
           Inr h \<Rightarrow> InfoHash r = h
         | Inl e \<Rightarrow> 20 \<le> cap d \<and> InfoHash r = hex_encode (take 20 (bytes d @ spare d))"
      using h r by (auto simp: slice_to_def split: sum.splits if_splits)
  qed (simp_all add: r)
qed

lemma parse_info_hash:
  assumes "ReadFile env p = Inr d"
    and "Decode (bytes d) = Inr (Dictionary torrent)"
    and "map_of torrent ''info'' = Some info"
    and "parseTorrentFile env p = Returns (Inr r)"
  shows "InfoHash r = hex_encode (sha1_Sum env (Encode info))"
proof -
  from assms(4) obtain d' m where d': "ReadFile env p = Inr d'"
    and "DecodeBytes_TorrentMetaInfo env (bytes d') = Returns (Inr m)"
    and h: "case calculateInfoHash env (bytes d') of
              Inr h \<Rightarrow> InfoHash r = h
            | Inl e \<Rightarrow> 20 \<le> cap d' \<and> InfoHash r = hex_encode (take 20 (bytes d' @ spare d'))"
    by (rule parseTorrentFile_Inr)
  from d' assms(1) have "d' = d" by simp
  moreover have "calculateInfoHash env (bytes d) = Inr (hex_encode (sha1_Sum env (Encode info)))"
    using assms(2,3) by (simp add: calculateInfoHash_def)
  ultimately show ?thesis using h by simp
qed

lemma parse_meta:
  assumes "ReadFile env p = Inr d"
    and "Decode (bytes d) = Inr (Dictionary torrent)"
    and "parseTorrentFile env p = Returns (Inr r)"
  obtains m s es where "DecodeBytes_TorrentMetaInfo env (bytes d) = Returns (Inr m)"
    and "bytes d = CHR ''d'' # s"
    and "split_pairs (length s) s = (es, True)"
    and "torrent = dict_of_entries es"
    and "fill_TorrentMetaInfo env es zero_TorrentMetaInfo = Returns (Inr m)"
    and "CreatedDate r =
           (if 0 < sint (CreationDate m) then time_Unix (CreationDate m) 0 else time_Now env p)"
    and "WebSeeds r = extractWebSeeds (URLList m)"
proof -
  from assms(3) obtain d' m where d': "ReadFile env p = Inr d'"
    and m: "DecodeBytes_TorrentMetaInfo env (bytes d') = Returns (Inr m)"
    and rest: "CreatedDate r =
           (if 0 < sint (CreationDate m) then time_Unix (CreationDate m) 0 else time_Now env p)"
      "WebSeeds r = extractWebSeeds (URLList m)"
    by (rule parseTorrentFile_Inr)
  from d' assms(1) have dd: "d' = d" by simp
  from m dd obtain s es where s: "bytes d = CHR ''d'' # s"
    and sp: "split_pairs (length s) s = (es, True)"
    and f: "fill_TorrentMetaInfo env es zero_TorrentMetaInfo = Returns (Inr m)"
    and dec: "Decode (bytes d) = Inr (Dictionary (dict_of_entries es))"
    by (auto elim: DecodeBytes_TorrentMetaInfo_Inr)
  from dec assms(2) have "torrent = dict_of_entries es" by simp
  with m dd s sp f rest that show ?thesis by blast
qed

lemma split_pairs_parsed:
  "split_pairs n s = (es, c) \<Longrightarrow> (k, r, Some v) \<in> set es \<Longrightarrow>
     \<exists>n' r'. decode_value n' r = Some (v, r')"
proof (induction n s arbitrary: es c rule: split_pairs.induct)
  case (1 s)
  then show ?case by simp
next
  case (2 n)
  then show ?case by simp
next
  case (3 n c0 s)
  show ?case
  proof (cases "c0 = CHR ''e''")
    case True
    with "3.prems" show ?thesis by simp
  next
    case False
    show ?thesis
    proof (cases "decode_bytes (c0 # s)")
      case None
      with False "3.prems" show ?thesis by simp
    next
      case (Some kr)
      obtain k0 r0 where kr: "kr = (k0, r0)" by (cases kr)
      show ?thesis
      proof (cases "decode_value n r0")
        case None
        with False Some kr "3.prems" show ?thesis by auto
      next
        case (Some vr)
        obtain v0 r1 where vr: "vr = (v0, r1)" by (cases vr)
        obtain es1 c1 where sp: "split_pairs n r1 = (es1, c1)" by (cases "split_pairs n r1")
        from False \<open>decode_bytes (c0 # s) = Some kr\<close> kr Some vr sp "3.prems"(1)
        have es: "es = (k0, r0, Some v0) # es1" by simp
        from "3.prems"(2) es consider "k = k0 \<and> r = r0 \<and> v = v0" | "(k, r, Some v) \<in> set es1"
          by auto
        then show ?thesis
        proof cases
          case 1
          with Some vr show ?thesis by blast
        next
          case 2
          from "3.IH" [OF False \<open>decode_bytes (c0 # s) = Some kr\<close> kr [symmetric] Some vr [symmetric] sp 2]
          show ?thesis .
        qed
      qed
    qed
  qed
qed

lemma decode_value_d:
  "decode_value n (CHR ''d'' # s) = Some (v, r') \<Longrightarrow> \<exists>kvs. v = Dictionary kvs"
  by (cases n) (auto split: option.splits)

lemma decode_InfoDict_Inr:
  "decode_InfoDict env cur r = Returns (Inr i) \<Longrightarrow> \<exists>s. r = CHR ''d'' # s"
  by (cases r) (auto simp: decode_InfoDict_def split: if_splits)

lemma dict_of_entries_absent:
  "key \<notin> set (map fst es) \<Longrightarrow> map_of (dict_of_entries es) key = None"
proof (induction es)
  case Nil
  then show ?case by simp
next
  case (Cons e es)
  obtain k r dv where e: "e = (k, r, dv)" by (cases e)
  with Cons show ?case by (cases dv) (auto simp: map_of_dict_add)
qed

lemma fill_info_Dictionary:
  assumes "fill_TorrentMetaInfo env es m0 = Returns (Inr m)"
    and "\<And>r v. (''info'', r, Some v) \<in> set es \<Longrightarrow> \<exists>n r'. decode_value n r = Some (v, r')"
    and "map_of (dict_of_entries es) ''info'' = Some v"
  shows "\<exists>kvs. v = Dictionary kvs"
  using assms
proof (induction es arbitrary: m0)
  case Nil
  then show ?case by simp
next
  case (Cons e es)
  obtain k r dv where e: "e = (k, r, dv)" by (cases e)
  from Cons.prems(1) e obtain m1 where
    step: "fill_TorrentMetaInfo env es m1 = Returns (Inr m)"
    and info: "k = ''info'' \<Longrightarrow> \<exists>s. r = CHR ''d'' # s"
    by (auto simp: then_fill_Inr dest: decode_InfoDict_Inr split: if_splits)
  have parsed: "\<And>r v. (''info'', r, Some v) \<in> set es \<Longrightarrow> \<exists>n r'. decode_value n r = Some (v, r')"
    using Cons.prems(2) by simp
  show ?case
  proof (cases "map_of (dict_of_entries es) ''info''")
    case (Some x)
    with Cons.prems(3) e have "x = v" by (cases dv) (simp_all add: map_of_dict_add)
    with Cons.IH [OF step parsed] Some show ?thesis by simp
  next
    case None
    with Cons.prems(3) e have k: "k = ''info''" and dv: "dv = Some v"
      by (cases dv; simp add: map_of_dict_add split: if_splits)+
    from Cons.prems(2) [of r v] e k dv obtain n r' where "decode_value n r = Some (v, r')"
      by auto
    with info [OF k] show ?thesis by (auto dest: decode_value_d)
  qed
qed

lemma fill_URLList_absent:
  "fill_TorrentMetaInfo env es m0 = Returns (Inr m) \<Longrightarrow> ''url-list'' \<notin> set (map fst es) \<Longrightarrow>
     URLList m = URLList m0"
proof (induction es arbitrary: m0)
  case Nil
  then show ?case by simp
next
  case (Cons e es)
  obtain k r dv where e: "e = (k, r, dv)" by (cases e)
  from Cons.prems e have k: "k \<noteq> ''url-list''" by auto
  from Cons.prems(1) e k obtain m1 where
    step: "fill_TorrentMetaInfo env es m1 = Returns (Inr m)"
    and u: "URLList m1 = URLList m0"
    by (auto simp: then_fill_Inr split: if_splits)
  from Cons.IH [OF step] Cons.prems(2) u show ?case by simp
qed

lemma fill_URLList_once:
  "fill_TorrentMetaInfo env es m0 = Returns (Inr m) \<Longrightarrow> URLList m0 = AnyNil \<Longrightarrow>
   count_list (map fst es) ''url-list'' \<le> 1 \<Longrightarrow>
     URLList m = (case map_of (dict_of_entries es) ''url-list'' of
                    None \<Rightarrow> AnyNil
                  | Some v \<Rightarrow> AnyValue v)"
proof (induction es arbitrary: m0)
  case Nil
  then show ?case by simp
next
  case (Cons e es)
  obtain k r dv where e: "e = (k, r, dv)" by (cases e)
  show ?case
  proof (cases "k = ''url-list''")
    case True
    with Cons.prems(3) e have "count_list (map fst es) ''url-list'' = 0" by simp
    then have absent: "''url-list'' \<notin> set (map fst es)" by (simp add: count_list_0_iff)
    from Cons.prems(1,2) e True obtain m1 v where
      step: "fill_TorrentMetaInfo env es m1 = Returns (Inr m)"
      and dv: "dv = Some v" and u: "URLList m1 = AnyValue v"
      by (auto simp: then_fill_Inr dest: decode_interface_Inr)
    from fill_URLList_absent [OF step absent] u have "URLList m = AnyValue v" by simp
    moreover have "map_of (dict_of_entries (e # es)) ''url-list'' = Some v"
      using e True dv dict_of_entries_absent [OF absent] by (simp add: map_of_dict_add)
    ultimately show ?thesis by simp
  next
    case False
    from Cons.prems(1,2) e False obtain m1 where
      step: "fill_TorrentMetaInfo env es m1 = Returns (Inr m)"
      and u: "URLList m1 = AnyNil"
      by (auto simp: then_fill_Inr split: if_splits)
    from Cons.prems(3) e False have c: "count_list (map fst es) ''url-list'' \<le> 1" by simp
    have "map_of (dict_of_entries (e # es)) ''url-list'' = map_of (dict_of_entries es) ''url-list''"
      using e False by (cases dv) (auto simp: map_of_dict_add split: option.splits)
    with Cons.IH [OF step u c] show ?thesis by simp
  qed
qed








lemma info_le_url_list: "(''info'' :: string) \<le> ''url-list''"
  by code_simp

lemma sort_info_url_list:
  "sort_key fst [(''info'', a), (''url-list'', b)] = [(''info'', a), (''url-list'', b)]"
  using info_le_url_list by simp

lemma split_pairs_end: "0 < n \<Longrightarrow> split_pairs n (CHR ''e'' # rest) = ([], True)"
  by (cases n) simp_all

lemma split_pairs_pair:
  assumes "representable v" and "length (Encode v) < n"
  shows "split_pairs n (encode_bytes k @ Encode v @ rest) =
           ((k, Encode v @ rest, Some (canon v)) # fst (split_pairs (n - 1) rest),
            snd (split_pairs (n - 1) rest))"
proof -
  from assms(2) obtain n' where n: "n = Suc n'" by (cases n) auto
  obtain c cs where kb: "encode_bytes k = c # cs" and dig: "is_digit c"
    using encode_bytes_head [of k] by blast
  from dig have ce: "c \<noteq> CHR ''e''" using e_not_digit by auto
  have db: "decode_bytes (c # cs @ Encode v @ rest) = Some (k, Encode v @ rest)"
    using decode_bytes_encode_bytes [of k "Encode v @ rest"] kb by simp
  have dv: "decode_value n' (Encode v @ rest) = Some (canon v, rest)"
    using assms(1) by (rule decode_value_Encode) (use assms(2) n in simp)
  show ?thesis
    unfolding n kb using ce db dv by (simp add: case_prod_beta)
qed

lemma string_elements_canon: "string_elements (map canon xs) = string_elements xs"
proof (induction xs)
  case Nil
  then show ?case by (simp add: string_elements_def)
next
  case (Cons x xs)
  then show ?case by (cases x) (simp_all add: string_elements_def)
qed

lemma extract_loop_eq: "extract_loop xs acc = acc @ string_elements xs"
proof (induction xs arbitrary: acc)
  case Nil
  then show ?case by (simp add: string_elements_def)
next
  case (Cons x xs)
  then show ?case by (cases x) (simp_all add: string_elements_def)
qed

lemma extractWebSeeds_canon:
  "extractWebSeeds (AnyValue (canon v)) =
     (case v of ByteString s \<Rightarrow> [s] | List xs \<Rightarrow> string_elements xs | _ \<Rightarrow> [])"
  by (cases v) (simp_all add: extract_loop_eq string_elements_canon)

lemma DecodeBytes_name_url_list:
  assumes "representable v"
  shows "DecodeBytes_TorrentMetaInfo env
           (Encode (Dictionary [(''info'', Dictionary [(''name'', ByteString n)]), (''url-list'', v)])) =
         Returns (Inr (zero_TorrentMetaInfo
                         \<lparr>Info := zero_InfoDict\<lparr>info_Name := n\<rparr>, URLList := AnyValue (canon v)\<rparr>))"
proof -
  define tail where "tail = encode_bytes ''url-list'' @ Encode v @ ''e''"
  define inner where "inner = encode_bytes ''name'' @ Encode (ByteString n) @ CHR ''e'' # tail"
  have enc: "Encode (Dictionary [(''info'', Dictionary [(''name'', ByteString n)]), (''url-list'', v)]) =
               CHR ''d'' # (encode_bytes ''info'' @ Encode (Dictionary [(''name'', ByteString n)]) @ tail)"
    by (simp add: sort_info_url_list tail_def del: Encode.simps(2))
  have info_enc: "Encode (Dictionary [(''name'', ByteString n)]) @ tail = CHR ''d'' # inner"
    by (simp add: inner_def del: Encode.simps(2))
  obtain c cs where ul: "encode_bytes ''url-list'' = c # cs"
    using encode_bytes_head [of "''url-list''"] by blast
  obtain c' cs' where inf: "encode_bytes ''info'' = c' # cs'"
    using encode_bytes_head [of "''info''"] by blast
  have tail_pos: "0 < length tail" by (simp add: tail_def)
  have sp_tail: "split_pairs k tail = ([(''url-list'', Encode v @ ''e'', Some (canon v))], True)"
    if "length (Encode v) < k" for k
  proof -
    from that length_Encode_pos [of v] have "0 < k - 1" by arith
    then have "split_pairs (k - 1) ''e'' = ([], True)" by (rule split_pairs_end)
    then show ?thesis
      unfolding tail_def by (subst split_pairs_pair [OF assms that]) simp
  qed
  have sp_inner: "split_pairs (length inner) inner =
                    ([(''name'', Encode (ByteString n) @ CHR ''e'' # tail, Some (ByteString n))], True)"
  proof -
    have less: "length (Encode (ByteString n)) < length inner"
      by (simp add: inner_def del: Encode.simps)
    have "0 < length inner - 1" using tail_pos by (simp add: inner_def)
    then have "split_pairs (length inner - 1) (CHR ''e'' # tail) = ([], True)"
      by (rule split_pairs_end)
    moreover have "split_pairs (length inner) inner =
        ((''name'', Encode (ByteString n) @ CHR ''e'' # tail, Some (canon (ByteString n))) #
           fst (split_pairs (length inner - 1) (CHR ''e'' # tail)),
         snd (split_pairs (length inner - 1) (CHR ''e'' # tail)))"
      using split_pairs_pair [of "ByteString n" "length inner" "''name''" "CHR ''e'' # tail"] less
      by (simp add: inner_def del: Encode.simps)
    ultimately show ?thesis by simp
  qed
  have dec_info: "decode_InfoDict env zero_InfoDict (CHR ''d'' # inner) =
                    Returns (Inr (zero_InfoDict\<lparr>info_Name := n\<rparr>))"
    by (simp add: decode_InfoDict_def sp_inner finish_def then_fill_def want_string_def want_value_def)
  have rep: "representable (Dictionary [(''name'', ByteString n)])" by simp
  have sp: "split_pairs (length (encode_bytes ''info'' @ Encode (Dictionary [(''name'', ByteString n)]) @ tail))
              (encode_bytes ''info'' @ Encode (Dictionary [(''name'', ByteString n)]) @ tail) =
            ([(''info'', CHR ''d'' # inner, Some (canon (Dictionary [(''name'', ByteString n)]))),
              (''url-list'', Encode v @ ''e'', Some (canon v))], True)"
  proof -
    have less: "length (Encode (Dictionary [(''name'', ByteString n)])) <
                length (encode_bytes ''info'' @ Encode (Dictionary [(''name'', ByteString n)]) @ tail)"
      using inf by (simp del: Encode.simps)
    have less2: "length (Encode v) <
                 length (encode_bytes ''info'' @ Encode (Dictionary [(''name'', ByteString n)]) @ tail) - 1"
      by (simp add: inf tail_def del: Encode.simps)
    from split_pairs_pair [OF rep less, of "''info''" tail] sp_tail [OF less2]
    show ?thesis by (simp add: info_enc del: Encode.simps canon.simps)
  qed
  show ?thesis
    unfolding enc DecodeBytes_TorrentMetaInfo_Cons sp
    by (simp add: finish_def then_fill_def decode_interface_def want_value_def dec_info
        zero_TorrentMetaInfo_def del: canon.simps)
qed


lemma Contains_sublist: "Contains s sub = sublist sub s"
  by (induction s) (simp_all add: sublist_Cons_right)

lemma search_loop_eq:
  "search_loop env ts q acc = acc @ filter (\<lambda>t. sublist q (ToLower env (Name t))) ts"
  by (induction ts arbitrary: acc) (simp_all add: Contains_sublist)

lemma calculateInfoHash_Inl:
  assumes "Decode data = Inr (Dictionary torrent)" and "calculateInfoHash env data = Inl e"
  shows "e = NoInfoSection \<and> map_of torrent ''info'' = None"
  using assms by (auto simp: calculateInfoHash_def split: option.splits)

lemma parsed_records_Cons:
  "parsed_records env dir (f # files) =
     (if is_candidate env f then
        (case parseTorrentFile env (filepath_Join env dir (fi_Name f)) of
           Returns (Inr torrentInfo) \<Rightarrow> [torrentInfo]
         | _ \<Rightarrow> [])
      else []) @ parsed_records env dir files"
  by (simp add: parsed_records_def)

lemma load_loop_Returns:
  "load_loop env dir files ts = Returns ts' \<Longrightarrow>
     ts' = ts @ parsed_records env dir files \<and>
     load_writes env dir files ts = map ((@) ts) (tl (prefixes (parsed_records env dir files)))"
proof (induction files arbitrary: ts)
  case Nil
  then show ?case by (simp add: parsed_records_def)
next
  case (Cons f files)
  show ?case
  proof (cases "is_candidate env f")
    case False
    with Cons.prems have "load_loop env dir files ts = Returns ts'" by simp
    from Cons.IH [OF this] False show ?thesis by (simp add: parsed_records_Cons)
  next
    case True
    show ?thesis
    proof (cases "parseTorrentFile env (filepath_Join env dir (fi_Name f))")
      case Panics
      with True Cons.prems show ?thesis by simp
    next
      case (Returns res)
      show ?thesis
      proof (cases res)
        case (Inl e)
        with True Returns Cons.prems have "load_loop env dir files ts = Returns ts'" by simp
        from Cons.IH [OF this] True Returns Inl show ?thesis by (simp add: parsed_records_Cons)
      next
        case (Inr t)
        with True Returns Cons.prems have "load_loop env dir files (ts @ [t]) = Returns ts'"
          by simp
        from Cons.IH [OF this] True Returns Inr show ?thesis
          by (cases "parsed_records env dir files") (simp_all add: parsed_records_Cons comp_def)
      qed
    qed
  qed
qed

lemma prefixes_tl: "prefixes xs = [] # tl (prefixes xs)"
  by (cases xs) simp_all

lemma last_prefixes: "last (prefixes xs) = xs"
  by (induction xs) (simp_all add: last_map)

lemma DecodeBytes_name_only:
  "DecodeBytes_TorrentMetaInfo env (Encode (Dictionary [(''info'', Dictionary [(''name'', ByteString n)])])) =
     Returns (Inr (zero_TorrentMetaInfo\<lparr>Info := zero_InfoDict\<lparr>info_Name := n\<rparr>\<rparr>))"
proof -
  define inner where "inner = encode_bytes ''name'' @ Encode (ByteString n) @ ''ee''"
  have enc: "Encode (Dictionary [(''info'', Dictionary [(''name'', ByteString n)])]) =
               CHR ''d'' # (encode_bytes ''info'' @ Encode (Dictionary [(''name'', ByteString n)]) @ ''e'')"
    by (simp del: Encode.simps(2))
  have info_enc: "Encode (Dictionary [(''name'', ByteString n)]) @ ''e'' = CHR ''d'' # inner"
    by (simp add: inner_def del: Encode.simps(2))
  obtain c' cs' where inf: "encode_bytes ''info'' = c' # cs'"
    using encode_bytes_head [of "''info''"] by blast
  have sp_inner: "split_pairs (length inner) inner =
                    ([(''name'', Encode (ByteString n) @ ''ee'', Some (ByteString n))], True)"
  proof -
    have less: "length (Encode (ByteString n)) < length inner"
      by (simp add: inner_def del: Encode.simps)
    have "0 < length inner - 1" by (simp add: inner_def)
    then have "split_pairs (length inner - 1) (CHR ''e'' # ''e'') = ([], True)"
      by (rule split_pairs_end)
    moreover have "split_pairs (length inner) inner =
        ((''name'', Encode (ByteString n) @ ''ee'', Some (canon (ByteString n))) #
           fst (split_pairs (length inner - 1) ''ee''),
         snd (split_pairs (length inner - 1) ''ee''))"
      using split_pairs_pair [of "ByteString n" "length inner" "''name''" "''ee''"] less
      by (simp add: inner_def del: Encode.simps)
    ultimately show ?thesis by simp
  qed
  have dec_info: "decode_InfoDict env zero_InfoDict (CHR ''d'' # inner) =
                    Returns (Inr (zero_InfoDict\<lparr>info_Name := n\<rparr>))"
    by (simp add: decode_InfoDict_def sp_inner finish_def then_fill_def want_string_def want_value_def)
  have rep: "representable (Dictionary [(''name'', ByteString n)])" by simp
  have sp: "split_pairs (length (encode_bytes ''info'' @ Encode (Dictionary [(''name'', ByteString n)]) @ ''e''))
              (encode_bytes ''info'' @ Encode (Dictionary [(''name'', ByteString n)]) @ ''e'') =
            ([(''info'', CHR ''d'' # inner, Some (canon (Dictionary [(''name'', ByteString n)])))], True)"
  proof -
    have less: "length (Encode (Dictionary [(''name'', ByteString n)])) <
                length (encode_bytes ''info'' @ Encode (Dictionary [(''name'', ByteString n)]) @ ''e'')"
      using inf by (simp del: Encode.simps)
    have "0 < length (encode_bytes ''info'' @ Encode (Dictionary [(''name'', ByteString n)]) @ ''e'') - 1"
      using inf by (simp del: Encode.simps)
    then have "split_pairs (length (encode_bytes ''info'' @ Encode (Dictionary [(''name'', ByteString n)]) @ ''e'') - 1)
                 ''e'' = ([], True)"
      by (rule split_pairs_end)
    with split_pairs_pair [OF rep less, of "''info''" "''e''"]
    show ?thesis by (simp add: info_enc del: Encode.simps canon.simps)
  qed
  show ?thesis
    unfolding enc DecodeBytes_TorrentMetaInfo_Cons sp
    by (simp add: finish_def then_fill_def dec_info zero_TorrentMetaInfo_def del: canon.simps)
qed

lemma parse_of_struct:
  assumes "ReadFile env p = Inr d"
    and "DecodeBytes_TorrentMetaInfo env (bytes d) = Returns (Inr m)"
    and "calculateInfoHash env (bytes d) = Inr h"
  shows "\<exists>r. parseTorrentFile env p = Returns (Inr r) \<and> InfoHash r = h \<and>
             WebSeeds r = extractWebSeeds (URLList m) \<and> Name r = info_Name (Info m)"
  using assms by (simp add: parseTorrentFile_def Let_def case_prod_beta)

lemma calculateInfoHash_of_struct:
  assumes "DecodeBytes_TorrentMetaInfo env data = Returns (Inr m)"
  shows "(\<exists>e. calculateInfoHash env data = Inl e) =
         (\<exists>torrent. Decode data = Inr (Dictionary torrent) \<and> map_of torrent ''info'' = None)"
proof -
  from assms obtain es where dec: "Decode data = Inr (Dictionary (dict_of_entries es))"
    by (auto elim: DecodeBytes_TorrentMetaInfo_Inr)
  show ?thesis
  proof (cases "map_of (dict_of_entries es) ''info''")
    case None
    with dec show ?thesis by (auto simp: calculateInfoHash_def)
  next
    case (Some v)
    with dec show ?thesis by (auto simp: calculateInfoHash_def)
  qed
qed

section \<open>The claims\<close>

text \<open>
  C1. When a file's dictionary holds an \<^verbatim>\<open>info\<close> dictionary and a record is built, the
  record's infoHash is the lower-case hexadecimal form of the digest of the canonical
  encoding (keys in ascending order) of the \<^verbatim>\<open>info\<close> value. So two files whose
  \<^verbatim>\<open>info\<close> dictionaries hold the same pairs, in whatever order, get the same infoHash.
\<close>

theorem infoHash_canonical:
  assumes "ReadFile env p = Inr d"
    and "Decode (bytes d) = Inr (Dictionary torrent)"
    and "map_of torrent ''info'' = Some (Dictionary info)"
    and "parseTorrentFile env p = Returns (Inr r)"
    and "ReadFile env p' = Inr d'"
    and "Decode (bytes d') = Inr (Dictionary torrent')"
    and "map_of torrent' ''info'' = Some (Dictionary info')"
    and "parseTorrentFile env p' = Returns (Inr r')"
  shows "InfoHash r = hex_encode (sha1_Sum env (Encode (Dictionary info))) \<and>
         set (InfoHash r) \<subseteq> set ''0123456789abcdef'' \<and>
         (set info = set info' \<longrightarrow> InfoHash r = InfoHash r')"
proof -
  have h: "InfoHash r = hex_encode (sha1_Sum env (Encode (Dictionary info)))"
    using assms(1-4) by (rule parse_info_hash)
  have h': "InfoHash r' = hex_encode (sha1_Sum env (Encode (Dictionary info')))"
    using assms(5-8) by (rule parse_info_hash)
  have "representable (Dictionary info)"
    using Decode_representable [OF assms(2)] assms(3) by (rule representable_entry)
  then have di: "distinct (map fst info)" by simp
  have "representable (Dictionary info')"
    using Decode_representable [OF assms(6)] assms(7) by (rule representable_entry)
  then have di': "distinct (map fst info')" by simp
  have "Encode (Dictionary info) = Encode (Dictionary info')" if "set info = set info'"
    using di di' that by (rule Encode_entries_unique)
  moreover have "set (InfoHash r) \<subseteq> set ''0123456789abcdef''"
    unfolding h by (rule hex_encode_lower)
  ultimately show ?thesis using h h' by (simp del: Encode.simps)
qed

theorem infoHash_canonical_witness:
  "parseTorrentFile two_orders_env ''torrents/a.torrent'' =
     Returns (Inr (single_file_record ''torrents/a.torrent'' now0)) \<and>
   parseTorrentFile two_orders_env ''torrents/b.torrent'' =
     Returns (Inr (single_file_record ''torrents/b.torrent'' now0)) \<and>
   InfoHash (single_file_record ''torrents/a.torrent'' now0) =
     hex_encode (sha1_Sum two_orders_env
       (Encode (Dictionary [(''length'', Integer 5), (''name'', ByteString ''a.txt''),
                            (''piece length'', Integer 5),
                            (''pieces'', ByteString ''aaaaaaaaaaaaaaaaaaaa'')]))) \<and>
   InfoHash (single_file_record ''torrents/a.torrent'' now0) =
     InfoHash (single_file_record ''torrents/b.torrent'' now0)"
proof -
  let ?ia = "[(''length'', Integer 5), (''name'', ByteString ''a.txt''),
              (''piece length'', Integer 5), (''pieces'', ByteString ''aaaaaaaaaaaaaaaaaaaa'')]"
  let ?ib = "[(''name'', ByteString ''a.txt''), (''pieces'', ByteString ''aaaaaaaaaaaaaaaaaaaa''),
              (''length'', Integer 5), (''piece length'', Integer 5)]"
  let ?ta = "[(''announce'', ByteString ''x''), (''info'', Dictionary ?ia)]"
  let ?tb = "[(''info'', Dictionary ?ib), (''announce'', ByteString ''y'')]"
  have ra: "ReadFile two_orders_env ''torrents/a.torrent'' = Inr (ReadFile_buffer single_file_torrent)"
    and rb: "ReadFile two_orders_env ''torrents/b.torrent'' = Inr (ReadFile_buffer unsorted_torrent)"
    by (simp_all add: two_orders_env_def example_env_def)
  have da: "Decode (bytes (ReadFile_buffer single_file_torrent)) = Inr (Dictionary ?ta)"
    by code_simp
  have db: "Decode (bytes (ReadFile_buffer unsorted_torrent)) = Inr (Dictionary ?tb)"
    by code_simp
  have ia: "map_of ?ta ''info'' = Some (Dictionary ?ia)"
    and ib: "map_of ?tb ''info'' = Some (Dictionary ?ib)"
    by simp_all
  have pa: "parseTorrentFile two_orders_env ''torrents/a.torrent'' =
              Returns (Inr (single_file_record ''torrents/a.torrent'' now0))"
    by code_simp
  have pb: "parseTorrentFile two_orders_env ''torrents/b.torrent'' =
              Returns (Inr (single_file_record ''torrents/b.torrent'' now0))"
    by code_simp
  have same: "set ?ia = set ?ib" by auto
  show ?thesis
    using infoHash_canonical [OF ra da ia pa rb db ib pb] same pa pb by blast
qed

text \<open>
  C2, as amended. A file whose decode into the metadata struct returns an error fails
  the build with that error, wrapped, and the scan goes on without adding a record for it;
  a panic of the decode is a panic of the build. A file whose \<^verbatim>\<open>info\<close> entry is no
  dictionary never yields a record. When the decode succeeds, the info hash cannot be
  computed exactly when the file's dictionary has no \<^verbatim>\<open>info\<close> key, and the error is
  then \<^verbatim>\<open>no info section found\<close>; if the file has at least 20 bytes the record is built
  all the same, the scan appends it to the catalog, and its infoHash is the hexadecimal
  form of the first 20 bytes of the file.
\<close>

theorem fallback_info_hash:
  assumes "ReadFile env p = Inr d"
  shows "(DecodeBytes_TorrentMetaInfo env (bytes d) = Panics \<longrightarrow> parseTorrentFile env p = Panics) \<and>
         (\<forall>e. DecodeBytes_TorrentMetaInfo env (bytes d) = Returns (Inl e) \<longrightarrow>
            parseTorrentFile env p = Returns (Inl (DecodingBencode e)) \<and>
            (\<forall>f dir files ts. is_candidate env f \<and> filepath_Join env dir (fi_Name f) = p \<longrightarrow>
               load_loop env dir (f # files) ts = load_loop env dir files ts)) \<and>
         (\<forall>torrent v. Decode (bytes d) = Inr (Dictionary torrent) \<and>
                map_of torrent ''info'' = Some v \<and> (\<forall>info. v \<noteq> Dictionary info) \<longrightarrow>
            (\<forall>r. parseTorrentFile env p \<noteq> Returns (Inr r))) \<and>
         (\<forall>m. DecodeBytes_TorrentMetaInfo env (bytes d) = Returns (Inr m) \<longrightarrow>
            ((\<exists>e. calculateInfoHash env (bytes d) = Inl e) =
             (\<exists>torrent. Decode (bytes d) = Inr (Dictionary torrent) \<and>
                        map_of torrent ''info'' = None)) \<and>
            (\<forall>e. calculateInfoHash env (bytes d) = Inl e \<longrightarrow> e = NoInfoSection) \<and>
            (\<forall>e. calculateInfoHash env (bytes d) = Inl e \<and> 20 \<le> length (bytes d) \<longrightarrow>
               (\<exists>r. parseTorrentFile env p = Returns (Inr r) \<and>
                    InfoHash r = hex_encode (take 20 (bytes d)) \<and>
                    (\<forall>f dir files ts.
                       is_candidate env f \<and> filepath_Join env dir (fi_Name f) = p \<longrightarrow>
                       load_loop env dir (f # files) ts = load_loop env dir files (ts @ [r])))))"
proof (intro conjI allI impI)
  assume "DecodeBytes_TorrentMetaInfo env (bytes d) = Panics"
  with assms show "parseTorrentFile env p = Panics" by (simp add: parseTorrentFile_def)
next
  fix e
  assume "DecodeBytes_TorrentMetaInfo env (bytes d) = Returns (Inl e)"
  with assms show "parseTorrentFile env p = Returns (Inl (DecodingBencode e))"
    by (simp add: parseTorrentFile_def)
next
  fix e f dir files ts
  assume "DecodeBytes_TorrentMetaInfo env (bytes d) = Returns (Inl e)"
    and "is_candidate env f \<and> filepath_Join env dir (fi_Name f) = p"
  with assms show "load_loop env dir (f # files) ts = load_loop env dir files ts"
    by (simp add: parseTorrentFile_def)
next
  fix torrent v r
  assume a: "Decode (bytes d) = Inr (Dictionary torrent) \<and>
             map_of torrent ''info'' = Some v \<and> (\<forall>info. v \<noteq> Dictionary info)"
  show "parseTorrentFile env p \<noteq> Returns (Inr r)"
  proof
    assume "parseTorrentFile env p = Returns (Inr r)"
    with assms a obtain m s es where sp: "split_pairs (length s) s = (es, True)"
      and t: "torrent = dict_of_entries es"
      and f: "fill_TorrentMetaInfo env es zero_TorrentMetaInfo = Returns (Inr m)"
      by (auto elim: parse_meta)
    have "\<exists>kvs. v = Dictionary kvs"
    proof (rule fill_info_Dictionary [OF f])
      show "\<exists>n r'. decode_value n b = Some (x, r')" if "(''info'', b, Some x) \<in> set es" for b x
        using sp that by (rule split_pairs_parsed)
      show "map_of (dict_of_entries es) ''info'' = Some v" using a t by simp
    qed
    with a show False by simp
  qed
next
  fix m
  assume "DecodeBytes_TorrentMetaInfo env (bytes d) = Returns (Inr m)"
  then show "(\<exists>e. calculateInfoHash env (bytes d) = Inl e) =
             (\<exists>torrent. Decode (bytes d) = Inr (Dictionary torrent) \<and>
                        map_of torrent ''info'' = None)"
    by (rule calculateInfoHash_of_struct)
next
  fix m e
  assume m: "DecodeBytes_TorrentMetaInfo env (bytes d) = Returns (Inr m)"
    and e: "calculateInfoHash env (bytes d) = Inl e"
  from m obtain torrent where "Decode (bytes d) = Inr (Dictionary torrent)"
    by (auto elim: DecodeBytes_TorrentMetaInfo_Inr)
  with e show "e = NoInfoSection" using calculateInfoHash_Inl by blast
next
  fix m e
  assume m: "DecodeBytes_TorrentMetaInfo env (bytes d) = Returns (Inr m)"
    and e: "calculateInfoHash env (bytes d) = Inl e \<and> 20 \<le> length (bytes d)"
  from e have s: "slice_to d 20 = Some (take 20 (bytes d))"
    by (simp add: slice_to_def cap_def)
  from assms m e s obtain r where r: "parseTorrentFile env p = Returns (Inr r)"
    and h: "InfoHash r = hex_encode (take 20 (bytes d))"
    by (simp add: parseTorrentFile_def Let_def case_prod_beta)
  have "load_loop env dir (f # files) ts = load_loop env dir files (ts @ [r])"
    if "is_candidate env f \<and> filepath_Join env dir (fi_Name f) = p" for f dir files ts
    using that r by simp
  with r h show "\<exists>r. parseTorrentFile env p = Returns (Inr r) \<and>
                    InfoHash r = hex_encode (take 20 (bytes d)) \<and>
                    (\<forall>f dir files ts.
                       is_candidate env f \<and> filepath_Join env dir (fi_Name f) = p \<longrightarrow>
                       load_loop env dir (f # files) ts = load_loop env dir files (ts @ [r]))"
    by blast
qed

theorem fallback_info_hash_witness:
  "calculateInfoHash (one_file_env ''n.torrent'' (ReadFile_buffer no_info_torrent) now0)
       (bytes (ReadFile_buffer no_info_torrent)) = Inl NoInfoSection \<and>
   (\<exists>r. parseTorrentFile (one_file_env ''n.torrent'' (ReadFile_buffer no_info_torrent) now0)
           ''torrents/n.torrent'' = Returns (Inr r) \<and>
        InfoHash r = hex_encode (take 20 (bytes (ReadFile_buffer no_info_torrent))) \<and>
        load_loop (one_file_env ''n.torrent'' (ReadFile_buffer no_info_torrent) now0) ''torrents''
          [\<lparr>fi_Name = ''n.torrent'', IsDir = False\<rparr>] [] = Returns [r]) \<and>
   parseTorrentFile (one_file_env ''i.torrent'' (ReadFile_buffer ''d4:infoi5ee'') now0)
       ''torrents/i.torrent'' = Returns (Inl (DecodingBencode BencodeType)) \<and>
   load_loop (one_file_env ''i.torrent'' (ReadFile_buffer ''d4:infoi5ee'') now0) ''torrents''
       [\<lparr>fi_Name = ''i.torrent'', IsDir = False\<rparr>] [] = Returns []"
proof -
  let ?envi = "one_file_env ''i.torrent'' (ReadFile_buffer ''d4:infoi5ee'') now0"
  let ?fi = "\<lparr>fi_Name = ''i.torrent'', IsDir = False\<rparr>"
  have ri: "ReadFile ?envi ''torrents/i.torrent'' = Inr (ReadFile_buffer ''d4:infoi5ee'')"
    by (simp add: one_file_env_def example_env_def)
  have mi: "DecodeBytes_TorrentMetaInfo ?envi (bytes (ReadFile_buffer ''d4:infoi5ee'')) =
              Returns (Inl BencodeType)"
    by code_simp
  have ci: "is_candidate ?envi ?fi \<and> filepath_Join ?envi ''torrents'' (fi_Name ?fi) = ''torrents/i.torrent''"
    by code_simp
  from fallback_info_hash [OF ri] mi ci
  have ti: "parseTorrentFile ?envi ''torrents/i.torrent'' = Returns (Inl (DecodingBencode BencodeType))"
    and li: "load_loop ?envi ''torrents'' [?fi] [] = load_loop ?envi ''torrents'' [] []"
    by blast+
  let ?env = "one_file_env ''n.torrent'' (ReadFile_buffer no_info_torrent) now0"
  let ?d = "ReadFile_buffer no_info_torrent"
  let ?m = "\<lparr>Announce = [], AnnounceList = AnyNil, meta_Comment = ''no info!!'',
             meta_CreatedBy = [], CreationDate = 0, Info = zero_InfoDict, URLList = AnyNil\<rparr>"
  let ?f = "\<lparr>fi_Name = ''n.torrent'', IsDir = False\<rparr>"
  have r: "ReadFile ?env ''torrents/n.torrent'' = Inr ?d"
    by (simp add: one_file_env_def example_env_def)
  have m: "DecodeBytes_TorrentMetaInfo ?env (bytes ?d) = Returns (Inr ?m)"
    by code_simp
  have c: "calculateInfoHash ?env (bytes ?d) = Inl NoInfoSection"
    by code_simp
  have l: "20 \<le> length (bytes ?d)"
    by (simp add: ReadFile_buffer_def no_info_torrent_def)
  have cn: "is_candidate ?env ?f \<and> filepath_Join ?env ''torrents'' (fi_Name ?f) = ''torrents/n.torrent''"
    by code_simp
  from fallback_info_hash [OF r] m c l cn
  obtain rec where "parseTorrentFile ?env ''torrents/n.torrent'' = Returns (Inr rec)"
    and "InfoHash rec = hex_encode (take 20 (bytes ?d))"
    and "load_loop ?env ''torrents'' [?f] [] = load_loop ?env ''torrents'' [] ([] @ [rec])"
    by blast
  then show ?thesis using c ti li by simp
qed

text \<open>
  The claim as stated fails: a file of 22 bytes without an \<^verbatim>\<open>info\<close> key yields a record
  whose infoHash is the fallback value.
\<close>

theorem fallback_info_hash_counterexample:
  "calculateInfoHash (one_file_env ''n.torrent'' (ReadFile_buffer no_info_torrent) now0)
       no_info_torrent = Inl NoInfoSection \<and>
   parseTorrentFile (one_file_env ''n.torrent'' (ReadFile_buffer no_info_torrent) now0)
       ''torrents/n.torrent'' = Returns (Inr no_info_record) \<and>
   InfoHash no_info_record = hex_encode ''d7:comment9:no info!''"
  by code_simp

text \<open>
  C3, as amended. For every representable value \<open>v\<close>, the parser reads the encoding of
  \<open>v\<close> back as \<open>canon v\<close>, a value with the same keys and values as \<open>v\<close>, and leaves
  no byte; encoding that value gives the bytes of \<open>Encode v\<close> again. \<open>Decode\<close>, which
  refuses a top-level value that is no dictionary, does so for every representable
  dictionary, and re-encoding its result reproduces the canonical bytes exactly.
\<close>

theorem codec_round_trip:
  assumes "representable v"
  shows "decode_value (length (Encode v)) (Encode v) = Some (canon v, []) \<and>
         Encode (canon v) = Encode v \<and>
         (\<forall>kvs. v = Dictionary kvs \<longrightarrow>
            Decode (Encode v) = Inr (canon v) \<and>
            (\<exists>kvs'. canon v = Dictionary kvs' \<and> sorted (map fst kvs') \<and>
                    set kvs' = (\<lambda>(k, x). (k, canon x)) ` set kvs) \<and>
            and_then (Decode (Encode v)) (\<lambda>w. Inr (Encode w)) = Inr (Encode v))"
proof -
  have "decode_value (length (Encode v)) (Encode v @ []) = Some (canon v, [])"
    using assms by (rule decode_value_Encode) simp
  then have a: "decode_value (length (Encode v)) (Encode v) = Some (canon v, [])" by simp
  have b: "Encode (canon v) = Encode v" by (rule Encode_canon)
  have c: "Decode (Encode v) = Inr (canon v)" if "v = Dictionary kvs" for kvs
    using assms that Decode_Encode_Dictionary by simp
  have d: "\<exists>kvs'. canon v = Dictionary kvs' \<and> sorted (map fst kvs') \<and>
                  set kvs' = (\<lambda>(k, x). (k, canon x)) ` set kvs"
    if "v = Dictionary kvs" for kvs
  proof -
    let ?kvs' = "map (\<lambda>(k, x). (k, canon x)) (sort_key fst kvs)"
    have "map fst ?kvs' = map fst (sort_key fst kvs)" by (simp add: case_prod_beta)
    then have "sorted (map fst ?kvs')" by (simp only: sorted_sort_key)
    moreover have "set ?kvs' = (\<lambda>(k, x). (k, canon x)) ` set kvs" by simp
    moreover have "canon v = Dictionary ?kvs'" using that by simp
    ultimately show ?thesis by blast
  qed
  have e: "and_then (Decode (Encode v)) (\<lambda>w. Inr (Encode w)) = Inr (Encode v)"
    if "v = Dictionary kvs" for kvs
    using c [OF that] b by (simp add: and_then_def del: Encode.simps canon.simps)
  from a b c d e show ?thesis by blast
qed

theorem codec_round_trip_witness:
  "representable nested_value \<and>
   decode_value (length (Encode nested_value)) (Encode nested_value) =
     Some (canon nested_value, []) \<and>
   Decode (Encode nested_value) = Inr (canon nested_value) \<and>
   and_then (Decode (Encode nested_value)) (\<lambda>w. Inr (Encode w)) = Inr (Encode nested_value)"
proof -
  have r: "representable nested_value" by (simp add: nested_value_def)
  obtain kvs where "nested_value = Dictionary kvs" by (simp add: nested_value_def)
  with codec_round_trip [OF r] r show ?thesis by blast
qed

text \<open>
  The claim as stated fails for a value that is no dictionary: the encoding of the integer
  0 is refused by \<open>Decode\<close>.
\<close>

theorem codec_round_trip_counterexample:
  "Decode (Encode (Integer 0)) = Inl BencodeSyntax"
  by code_simp

text \<open>
  C4. The directory \<^verbatim>\<open>torrents\<close> can be listed and holds three candidate files. The
  second one has the key \<^verbatim>\<open>url-list\<close> twice, each time with a byte string. Decoding it
  into the metadata struct panics at line 178, \<^verbatim>\<open>parseTorrentFile\<close> panics with it, and
  since the loop of lines 132 to 141 recovers from nothing, \<^verbatim>\<open>LoadTorrents\<close> does not
  return: one file takes the scan down.
\<close>

theorem LoadTorrents_panics_on_repeated_key:
  "ReadDir repeated_key_env ''torrents'' =
     Inr [\<lparr>fi_Name = ''a.torrent'', IsDir = False\<rparr>, \<lparr>fi_Name = ''dup.torrent'', IsDir = False\<rparr>,
          \<lparr>fi_Name = ''c.torrent'', IsDir = False\<rparr>] \<and>
   DecodeBytes_TorrentMetaInfo repeated_key_env repeated_key_torrent = Panics \<and>
   parseTorrentFile repeated_key_env ''torrents/dup.torrent'' = Panics \<and>
   LoadTorrents repeated_key_env \<lparr>torrentsDir = ''torrents'', torrents = []\<rparr> = Panics"
  by code_simp




text \<open>
  C6. \<^verbatim>\<open>extractWebSeeds\<close> gives no seed for \<^verbatim>\<open>nil\<close>, the string itself for a byte
  string, the byte strings of a list in their order for a list, and no seed for an integer
  or a dictionary. No shape raises an error: storing the first \<^verbatim>\<open>url-list\<close> value of a
  file into the struct succeeds whatever the value is, and the file made of an \<^verbatim>\<open>info\<close>
  dictionary with a name and of a \<^verbatim>\<open>url-list\<close> entry holding any representable value
  \<open>v\<close> parses to a record whose web seeds are those of \<open>v\<close>; without the entry the
  record has no web seed. For every file that holds the key \<^verbatim>\<open>url-list\<close> at most once
  and for which a record is built, the record's web seeds are those of the entry of the
  file's dictionary.
\<close>

theorem extractWebSeeds_normalizes:
  "extractWebSeeds AnyNil = [] \<and>
   extractWebSeeds (AnyValue v) =
     (case v of ByteString s \<Rightarrow> [s] | List xs \<Rightarrow> string_elements xs | _ \<Rightarrow> []) \<and>
   (URLList m0 = AnyNil \<longrightarrow>
      fill_TorrentMetaInfo env ((''url-list'', b, Some v) # es) m0 =
        fill_TorrentMetaInfo env es (m0\<lparr>URLList := AnyValue v\<rparr>)) \<and>
   (representable v \<and> ReadFile env p = Inr d \<and>
    bytes d = Encode (Dictionary [(''info'', Dictionary [(''name'', ByteString n)]), (''url-list'', v)]) \<longrightarrow>
      (\<exists>r. parseTorrentFile env p = Returns (Inr r) \<and>
           WebSeeds r =
             (case v of ByteString s \<Rightarrow> [s] | List xs \<Rightarrow> string_elements xs | _ \<Rightarrow> []))) \<and>
   (ReadFile env p = Inr d \<and>
    bytes d = Encode (Dictionary [(''info'', Dictionary [(''name'', ByteString n)])]) \<longrightarrow>
      (\<exists>r. parseTorrentFile env p = Returns (Inr r) \<and> WebSeeds r = [])) \<and>
   (ReadFile env p = Inr d \<and> Decode (bytes d) = Inr (Dictionary torrent) \<and>
    count_list (top_keys (bytes d)) ''url-list'' \<le> 1 \<and>
    parseTorrentFile env p = Returns (Inr r) \<longrightarrow>
      WebSeeds r =
        (case map_of torrent ''url-list'' of
           None \<Rightarrow> []
         | Some (ByteString s) \<Rightarrow> [s]
         | Some (List xs) \<Rightarrow> string_elements xs
         | Some other \<Rightarrow> []))"
proof (intro conjI impI)
  show "extractWebSeeds AnyNil = []" by simp
  show "extractWebSeeds (AnyValue v) =
     (case v of ByteString s \<Rightarrow> [s] | List xs \<Rightarrow> string_elements xs | _ \<Rightarrow> [])"
    by (cases v) (simp_all add: extract_loop_eq)
next
  assume "URLList m0 = AnyNil"
  then show "fill_TorrentMetaInfo env ((''url-list'', b, Some v) # es) m0 =
        fill_TorrentMetaInfo env es (m0\<lparr>URLList := AnyValue v\<rparr>)"
    by (simp add: decode_interface_def then_fill_def want_value_def)
next
  let ?t = "Dictionary [(''info'', Dictionary [(''name'', ByteString n)]), (''url-list'', v)]"
  assume a: "representable v \<and> ReadFile env p = Inr d \<and> bytes d = Encode ?t"
  then have rep: "representable ?t" by simp
  have m: "DecodeBytes_TorrentMetaInfo env (bytes d) =
             Returns (Inr (zero_TorrentMetaInfo
                         \<lparr>Info := zero_InfoDict\<lparr>info_Name := n\<rparr>, URLList := AnyValue (canon v)\<rparr>))"
    using a DecodeBytes_name_url_list by simp
  have "Decode (bytes d) = Inr (canon ?t)"
    using a Decode_Encode_Dictionary [OF rep] by simp
  then have "\<exists>h. calculateInfoHash env (bytes d) = Inr h"
    by (simp add: calculateInfoHash_def sort_info_url_list del: Encode.simps)
  then obtain h where "calculateInfoHash env (bytes d) = Inr h" ..
  with a m obtain r where "parseTorrentFile env p = Returns (Inr r)"
    and "WebSeeds r = extractWebSeeds (AnyValue (canon v))"
    using parse_of_struct [of env p d] by fastforce
  then show "\<exists>r. parseTorrentFile env p = Returns (Inr r) \<and>
           WebSeeds r =
             (case v of ByteString s \<Rightarrow> [s] | List xs \<Rightarrow> string_elements xs | _ \<Rightarrow> [])"
    by (auto simp: extractWebSeeds_canon)
next
  let ?t = "Dictionary [(''info'', Dictionary [(''name'', ByteString n)])]"
  assume a: "ReadFile env p = Inr d \<and> bytes d = Encode ?t"
  have rep: "representable ?t" by simp
  have m: "DecodeBytes_TorrentMetaInfo env (bytes d) =
             Returns (Inr (zero_TorrentMetaInfo\<lparr>Info := zero_InfoDict\<lparr>info_Name := n\<rparr>\<rparr>))"
    using a DecodeBytes_name_only by simp
  have "Decode (bytes d) = Inr (canon ?t)"
    using a Decode_Encode_Dictionary [OF rep] by simp
  then have "\<exists>h. calculateInfoHash env (bytes d) = Inr h"
    by (simp add: calculateInfoHash_def del: Encode.simps)
  then obtain h where "calculateInfoHash env (bytes d) = Inr h" ..
  with a m obtain r where "parseTorrentFile env p = Returns (Inr r)"
    and "WebSeeds r = extractWebSeeds (URLList (zero_TorrentMetaInfo\<lparr>Info := zero_InfoDict\<lparr>info_Name := n\<rparr>\<rparr>))"
    using parse_of_struct [of env p d] by fastforce
  then show "\<exists>r. parseTorrentFile env p = Returns (Inr r) \<and> WebSeeds r = []"
    by (auto simp: zero_TorrentMetaInfo_def)
next
  assume a: "ReadFile env p = Inr d \<and> Decode (bytes d) = Inr (Dictionary torrent) \<and>
    count_list (top_keys (bytes d)) ''url-list'' \<le> 1 \<and>
    parseTorrentFile env p = Returns (Inr r)"
  then obtain m s es where s: "bytes d = CHR ''d'' # s"
    and sp: "split_pairs (length s) s = (es, True)"
    and t: "torrent = dict_of_entries es"
    and f: "fill_TorrentMetaInfo env es zero_TorrentMetaInfo = Returns (Inr m)"
    and w: "WebSeeds r = extractWebSeeds (URLList m)"
    by (auto elim: parse_meta)
  from a s sp have c: "count_list (map fst es) ''url-list'' \<le> 1" by (simp add: top_keys_def)
  have z: "URLList zero_TorrentMetaInfo = AnyNil" by (simp add: zero_TorrentMetaInfo_def)
  from fill_URLList_once [OF f z c] t
  have "URLList m = (case map_of torrent ''url-list'' of None \<Rightarrow> AnyNil | Some v \<Rightarrow> AnyValue v)"
    by simp
  with w show "WebSeeds r =
        (case map_of torrent ''url-list'' of
           None \<Rightarrow> []
         | Some (ByteString s) \<Rightarrow> [s]
         | Some (List xs) \<Rightarrow> string_elements xs
         | Some other \<Rightarrow> [])"
    by (auto simp: extract_loop_eq split: option.splits bvalue.splits)
qed

theorem extractWebSeeds_normalizes_witness:
  "(\<exists>r. parseTorrentFile (one_file_env ''w.torrent'' (ReadFile_buffer integer_url_list_torrent) now0)
           ''torrents/w.torrent'' = Returns (Inr r) \<and> WebSeeds r = []) \<and>
   (\<exists>r. parseTorrentFile (one_file_env ''o.torrent'' (ReadFile_buffer ''d4:infod4:name1:mee'') now0)
           ''torrents/o.torrent'' = Returns (Inr r) \<and> WebSeeds r = []) \<and>
   fill_TorrentMetaInfo (example_env [] now0) [(''url-list'', ''i5ee'', Some (Integer 5))]
       zero_TorrentMetaInfo =
     Returns (Inr (zero_TorrentMetaInfo\<lparr>URLList := AnyValue (Integer 5)\<rparr>)) \<and>
   parseTorrentFile (one_file_env ''m.torrent'' (ReadFile_buffer multi_file_torrent) now0)
       ''torrents/m.torrent'' = Returns (Inr multi_file_record) \<and>
   WebSeeds multi_file_record =
     string_elements [ByteString ''http://x'', Integer 5, ByteString ''http://y''] \<and>
   WebSeeds multi_file_record = [''http://x'', ''http://y'']"
proof -
  let ?envw = "one_file_env ''w.torrent'' (ReadFile_buffer integer_url_list_torrent) now0"
  have rw: "ReadFile ?envw ''torrents/w.torrent'' = Inr (ReadFile_buffer integer_url_list_torrent)"
    by (simp add: one_file_env_def example_env_def)
  have bw: "bytes (ReadFile_buffer integer_url_list_torrent) =
              Encode (Dictionary [(''info'', Dictionary [(''name'', ByteString ''m'')]),
                                  (''url-list'', Integer 5)])"
    by code_simp
  have vw: "representable (Integer 5)" by simp
  from extractWebSeeds_normalizes
         [where v = "Integer 5" and env = ?envw and p = "''torrents/w.torrent''"
            and d = "ReadFile_buffer integer_url_list_torrent" and n = "''m''"]
       vw rw bw
  have w: "\<exists>r. parseTorrentFile ?envw ''torrents/w.torrent'' = Returns (Inr r) \<and> WebSeeds r = []"
    by simp
  let ?envo = "one_file_env ''o.torrent'' (ReadFile_buffer ''d4:infod4:name1:mee'') now0"
  have ro: "ReadFile ?envo ''torrents/o.torrent'' = Inr (ReadFile_buffer ''d4:infod4:name1:mee'')"
    by (simp add: one_file_env_def example_env_def)
  have bo: "bytes (ReadFile_buffer ''d4:infod4:name1:mee'') =
              Encode (Dictionary [(''info'', Dictionary [(''name'', ByteString ''m'')])])"
    by code_simp
  from extractWebSeeds_normalizes
         [where env = ?envo and p = "''torrents/o.torrent''"
            and d = "ReadFile_buffer ''d4:infod4:name1:mee''" and n = "''m''"]
       ro bo
  have o: "\<exists>r. parseTorrentFile ?envo ''torrents/o.torrent'' = Returns (Inr r) \<and> WebSeeds r = []"
    by simp
  have z: "URLList zero_TorrentMetaInfo = AnyNil" by (simp add: zero_TorrentMetaInfo_def)
  from extractWebSeeds_normalizes
         [where v = "Integer 5" and ?m0.0 = zero_TorrentMetaInfo and env = "example_env [] now0"
            and b = "''i5ee''" and es = "[]"] z
  have st: "fill_TorrentMetaInfo (example_env [] now0) [(''url-list'', ''i5ee'', Some (Integer 5))]
              zero_TorrentMetaInfo =
            Returns (Inr (zero_TorrentMetaInfo\<lparr>URLList := AnyValue (Integer 5)\<rparr>))"
    by simp
  let ?env = "one_file_env ''m.torrent'' (ReadFile_buffer multi_file_torrent) now0"
  let ?torrent = "[(''info'', Dictionary multi_file_info),
                   (''url-list'', List [ByteString ''http://x'', Integer 5, ByteString ''http://y''])]"
  have r: "ReadFile ?env ''torrents/m.torrent'' = Inr (ReadFile_buffer multi_file_torrent)"
    by (simp add: one_file_env_def example_env_def)
  have d: "Decode (bytes (ReadFile_buffer multi_file_torrent)) = Inr (Dictionary ?torrent)"
    by code_simp
  have c: "count_list (top_keys (bytes (ReadFile_buffer multi_file_torrent))) ''url-list'' \<le> 1"
    by code_simp
  have p: "parseTorrentFile ?env ''torrents/m.torrent'' = Returns (Inr multi_file_record)"
    by code_simp
  from extractWebSeeds_normalizes
         [where env = ?env and p = "''torrents/m.torrent''"
            and d = "ReadFile_buffer multi_file_torrent" and torrent = ?torrent
            and r = multi_file_record]
       r d c p
  have m: "WebSeeds multi_file_record =
          string_elements [ByteString ''http://x'', Integer 5, ByteString ''http://y'']"
    by simp
  have "WebSeeds multi_file_record = [''http://x'', ''http://y'']"
    by (simp add: multi_file_record_def)
  with w o st p m show ?thesis by blast
qed

text \<open>
  C7. Searching with the empty term returns all records of the catalog in their order;
  searching with a non-empty term returns exactly the records whose lower-cased name
  contains the lower-cased term as a contiguous substring, in catalog order.
\<close>

theorem SearchTorrents_filters:
  "SearchTorrents env tm [] = torrents tm \<and>
   (query \<noteq> [] \<longrightarrow>
      SearchTorrents env tm query =
        filter (\<lambda>t. sublist (ToLower env query) (ToLower env (Name t))) (torrents tm))"
  by (simp add: SearchTorrents_def search_loop_eq)

theorem SearchTorrents_filters_witness:
  "SearchTorrents (example_env [] now0) movie_catalog [] = [movie_record] \<and>
   SearchTorrents (example_env [] now0) movie_catalog ''MOVIE'' =
     filter (\<lambda>t. sublist (ToLower (example_env [] now0) ''MOVIE'')
                    (ToLower (example_env [] now0) (Name t)))
       (torrents movie_catalog) \<and>
   SearchTorrents (example_env [] now0) movie_catalog ''MOVIE'' = [movie_record] \<and>
   SearchTorrents (example_env [] now0) movie_catalog ''2023'' = [movie_record] \<and>
   SearchTorrents (example_env [] now0) movie_catalog ''xyz'' = []"
proof -
  have ne: "''MOVIE'' \<noteq> []" by simp
  have all: "SearchTorrents (example_env [] now0) movie_catalog [] = [movie_record]"
    using SearchTorrents_filters [of "example_env [] now0" movie_catalog]
    by (simp add: movie_catalog_def)
  have flt: "SearchTorrents (example_env [] now0) movie_catalog ''MOVIE'' =
     filter (\<lambda>t. sublist (ToLower (example_env [] now0) ''MOVIE'')
                    (ToLower (example_env [] now0) (Name t)))
       (torrents movie_catalog)"
    using SearchTorrents_filters [of "example_env [] now0" movie_catalog "''MOVIE''"] ne
    by blast
  have "SearchTorrents (example_env [] now0) movie_catalog ''MOVIE'' = [movie_record]"
    and "SearchTorrents (example_env [] now0) movie_catalog ''2023'' = [movie_record]"
    and "SearchTorrents (example_env [] now0) movie_catalog ''xyz'' = []"
    by code_simp+
  with all flt show ?thesis by blast
qed

text \<open>
  C8, as amended. When the file's dictionary has no \<^verbatim>\<open>creation date\<close> entry, the
  record's createdDate is the reading of the clock taken while the file is parsed. An
  entry holding a positive integer \<open>t\<close> gives \<^verbatim>\<open>time.Unix(t, 0)\<close>, whatever the clock
  says; an entry holding another integer gives the reading of the clock again.
\<close>

theorem createdDate_from_clock:
  assumes "ReadFile env p = Inr d"
    and "Decode (bytes d) = Inr (Dictionary torrent)"
    and "parseTorrentFile env p = Returns (Inr r)"
  shows "case map_of torrent ''creation date'' of
           None \<Rightarrow> CreatedDate r = time_Now env p
         | Some (Integer t) \<Rightarrow>
             CreatedDate r = (if 0 < sint t then time_Unix t 0 else time_Now env p)
         | Some other \<Rightarrow> False"
proof -
  from assms obtain m es where t: "torrent = dict_of_entries es"
    and f: "fill_TorrentMetaInfo env es zero_TorrentMetaInfo = Returns (Inr m)"
    and c: "CreatedDate r =
           (if 0 < sint (CreationDate m) then time_Unix (CreationDate m) 0 else time_Now env p)"
    by (rule parse_meta)
  have z: "CreationDate zero_TorrentMetaInfo = 0" by (simp add: zero_TorrentMetaInfo_def)
  from fill_CreationDate [OF f] t z
  have "case map_of torrent ''creation date'' of
          None \<Rightarrow> CreationDate m = 0
        | Some (Integer t) \<Rightarrow> CreationDate m = t
        | Some other \<Rightarrow> False" by (auto split: option.splits bvalue.splits)
  with c show ?thesis by (auto split: option.splits bvalue.splits)
qed

theorem createdDate_from_clock_witness:
  "CreatedDate (single_file_record ''torrents/a.torrent'' now0) =
     time_Now (one_file_env ''a.torrent'' (ReadFile_buffer single_file_torrent) now0)
       ''torrents/a.torrent''"
proof -
  let ?env = "one_file_env ''a.torrent'' (ReadFile_buffer single_file_torrent) now0"
  let ?torrent = "[(''announce'', ByteString ''x''),
                   (''info'', Dictionary
                      [(''length'', Integer 5), (''name'', ByteString ''a.txt''),
                       (''piece length'', Integer 5),
                       (''pieces'', ByteString ''aaaaaaaaaaaaaaaaaaaa'')])]"
  have r: "ReadFile ?env ''torrents/a.torrent'' = Inr (ReadFile_buffer single_file_torrent)"
    by (simp add: one_file_env_def example_env_def)
  have d: "Decode (bytes (ReadFile_buffer single_file_torrent)) = Inr (Dictionary ?torrent)"
    by code_simp
  have p: "parseTorrentFile ?env ''torrents/a.torrent'' =
             Returns (Inr (single_file_record ''torrents/a.torrent'' now0))"
    by code_simp
  show ?thesis
    using createdDate_from_clock [OF r d p] by simp
qed

text \<open>
  The claim as stated fails: two scans of the same file, a minute apart, build records
  with different createdDate values.
\<close>

theorem createdDate_from_clock_counterexample:
  "parseTorrentFile
       (one_file_env ''a.torrent'' (ReadFile_buffer single_file_torrent) (time_Unix 1700000000 0))
       ''torrents/a.torrent'' =
     Returns (Inr (single_file_record ''torrents/a.torrent'' (time_Unix 1700000000 0))) \<and>
   parseTorrentFile
       (one_file_env ''a.torrent'' (ReadFile_buffer single_file_torrent) (time_Unix 1700000060 0))
       ''torrents/a.torrent'' =
     Returns (Inr (single_file_record ''torrents/a.torrent'' (time_Unix 1700000060 0))) \<and>
   CreatedDate (single_file_record ''torrents/a.torrent'' (time_Unix 1700000000 0)) \<noteq>
   CreatedDate (single_file_record ''torrents/a.torrent'' (time_Unix 1700000060 0))"
  by code_simp

text \<open>
  C9, as amended. A scan that returns assigns to the catalog, one after the other, the
  prefixes of the new sequence of records: first the empty sequence, then one record more
  at each step, up to the complete sequence, which is the catalog when the scan returns.
  No value mixes old records with new ones.
\<close>

theorem LoadTorrents_writes_prefixes:
  assumes "ReadDir env (torrentsDir tm) = Inr files"
    and "LoadTorrents env tm = Returns (tm', err)"
  shows "LoadTorrents_writes env tm = prefixes (parsed_records env (torrentsDir tm) files) \<and>
         last (LoadTorrents_writes env tm) = parsed_records env (torrentsDir tm) files \<and>
         tm' = tm\<lparr>torrents := parsed_records env (torrentsDir tm) files\<rparr> \<and>
         err = None"
proof -
  from assms obtain ts where l: "load_loop env (torrentsDir tm) files [] = Returns ts"
    and tm': "tm' = tm\<lparr>torrents := ts\<rparr>" and err: "err = None"
    by (cases "load_loop env (torrentsDir tm) files []") (auto simp: LoadTorrents_def)
  have nil: "map ((@) []) xss = xss" for xss :: "TorrentInfo list list"
    by (induction xss) simp_all
  from load_loop_Returns [OF l] nil
  have ts: "ts = parsed_records env (torrentsDir tm) files"
    and w: "load_writes env (torrentsDir tm) files [] =
              tl (prefixes (parsed_records env (torrentsDir tm) files))"
    by simp_all
  have "LoadTorrents_writes env tm = [] # tl (prefixes (parsed_records env (torrentsDir tm) files))"
    using assms(1) w by (simp add: LoadTorrents_writes_def)
  then have eq: "LoadTorrents_writes env tm = prefixes (parsed_records env (torrentsDir tm) files)"
    using prefixes_tl [of "parsed_records env (torrentsDir tm) files"] by simp
  then have "last (LoadTorrents_writes env tm) = parsed_records env (torrentsDir tm) files"
    by (simp add: last_prefixes)
  with eq tm' ts err show ?thesis by simp
qed

theorem LoadTorrents_writes_prefixes_witness:
  "LoadTorrents two_orders_env movie_catalog =
     Returns (movie_catalog\<lparr>torrents := [single_file_record ''torrents/a.torrent'' now0,
                                          single_file_record ''torrents/b.torrent'' now0]\<rparr>, None) \<and>
   parsed_records two_orders_env ''torrents''
       [\<lparr>fi_Name = ''a.torrent'', IsDir = False\<rparr>, \<lparr>fi_Name = ''b.torrent'', IsDir = False\<rparr>] =
     [single_file_record ''torrents/a.torrent'' now0, single_file_record ''torrents/b.torrent'' now0] \<and>
   LoadTorrents_writes two_orders_env movie_catalog =
     prefixes [single_file_record ''torrents/a.torrent'' now0,
               single_file_record ''torrents/b.torrent'' now0]"
proof -
  let ?files = "[\<lparr>fi_Name = ''a.torrent'', IsDir = False\<rparr>, \<lparr>fi_Name = ''b.torrent'', IsDir = False\<rparr>]"
  let ?new = "[single_file_record ''torrents/a.torrent'' now0,
               single_file_record ''torrents/b.torrent'' now0]"
  have rd: "ReadDir two_orders_env (torrentsDir movie_catalog) = Inr ?files"
    by (simp add: two_orders_env_def example_env_def movie_catalog_def)
  have l: "LoadTorrents two_orders_env movie_catalog =
             Returns (movie_catalog\<lparr>torrents := ?new\<rparr>, None)"
    by code_simp
  have pr: "parsed_records two_orders_env ''torrents'' ?files = ?new"
    by code_simp
  have dir: "torrentsDir movie_catalog = ''torrents''" by (simp add: movie_catalog_def)
  from LoadTorrents_writes_prefixes [OF rd l] pr dir
  have "LoadTorrents_writes two_orders_env movie_catalog = prefixes ?new" by simp
  with l pr show ?thesis by blast
qed

text \<open>
  The claim as stated fails: the new set is not made visible by one swap. Starting from a
  catalog of one record, a scan of two files gives the catalog three values in turn; the
  second one holds one record and is neither the old catalog nor the complete new one.
\<close>

theorem LoadTorrents_writes_prefixes_counterexample:
  "torrents movie_catalog = [movie_record] \<and>
   LoadTorrents_writes two_orders_env movie_catalog =
     [[],
      [single_file_record ''torrents/a.torrent'' now0],
      [single_file_record ''torrents/a.torrent'' now0,
       single_file_record ''torrents/b.torrent'' now0]] \<and>
   [single_file_record ''torrents/a.torrent'' now0] \<noteq> torrents movie_catalog \<and>
   [single_file_record ''torrents/a.torrent'' now0] \<noteq>
     [single_file_record ''torrents/a.torrent'' now0,
      single_file_record ''torrents/b.torrent'' now0]"
  by code_simp

text \<open>
  C10. On the 2-byte file \<^verbatim>\<open>de\<close> the decode into the struct succeeds, the info hash
  cannot be computed, and line 187 takes \<^verbatim>\<open>data[:20]\<close> of a slice of length 2. With
  no spare capacity the call panics. With the buffer that \<^verbatim>\<open>ReadFile\<close> returns, and
  with any other buffer of capacity 20 or more, the call returns a record whose infoHash
  is made of the 2 bytes of the file and of 18 bytes that lie past the end of the file's
  contents.
\<close>

theorem short_file_reads_past_end:
  "parseTorrentFile (one_file_env ''x.torrent'' \<lparr>bytes = ''de'', spare = []\<rparr> now0)
       ''torrents/x.torrent'' = Panics \<and>
   parseTorrentFile (one_file_env ''x.torrent'' (ReadFile_buffer ''de'') now0)
       ''torrents/x.torrent'' =
     Returns (Inr \<lparr>Name = [], InfoHash = ''6465000000000000000000000000000000000000'',
                   Size = 0, Files = [], WebSeeds = [], CreatedBy = [],
                   CreatedDate = now0, Comment = [], FilePath = ''torrents/x.torrent''\<rparr>) \<and>
   parseTorrentFile
       (one_file_env ''x.torrent'' \<lparr>bytes = ''de'', spare = ''SPARE-BYTES-PAST-THE-END''\<rparr> now0)
       ''torrents/x.torrent'' =
     Returns (Inr \<lparr>Name = [], InfoHash = ''646553504152452d42595445532d504153542d54'',
                   Size = 0, Files = [], WebSeeds = [], CreatedBy = [],
                   CreatedDate = now0, Comment = [], FilePath = ''torrents/x.torrent''\<rparr>)"
  by code_simp

end
